theory Spec2Isabelle
  imports Complex_Main "HOL-Library.Word" "HOL-Library.Multiset"
begin

section \<open>Data model (src/types.ts)\<close>

text \<open>
  The records follow the TypeScript interfaces field by field. The field \<open>id\<close> of
  \<open>Photo\<close> is called \<open>pid\<close> here, since \<open>id\<close> is the identity function of HOL.
  JavaScript numbers that hold slider values, angles and volumes are integers in every
  place the program writes them, and are modelled as \<open>int\<close>.
\<close>

record ImageFilter =
  brightness :: int
  contrast :: int
  saturation :: int
  blur :: int
  sepia :: int
  grayscale :: int

record Photo =
  pid :: string
  url :: string
  originalUrl :: string
  name :: string
  category :: string
  narration :: string
  audioNarrationUrl :: "string option"
  filters :: ImageFilter
  rotation :: int

datatype View = gallery | editor | slideshow | audio

record AppState =
  photos :: "Photo list"
  currentView :: View
  editingPhotoId :: "string option"
  selectedAudio :: "string option"
  isAudioPlaying :: bool
  audioVolume :: int

text \<open>The members of the enum \<open>ImageCategory\<close>, in declaration order.\<close>

definition UNCATEGORIZED :: string where
  "UNCATEGORIZED = ''Uncategorized''"

definition ImageCategory_values :: "string list" where
  "ImageCategory_values =
     [''People'', ''Landscapes'', ''Animals'', ''Objects'', ''Indoor'', ''Outdoor'',
      ''Selfies'', ''Others'', UNCATEGORIZED]"

definition DEFAULT_FILTERS :: ImageFilter where
  "DEFAULT_FILTERS =
     \<lparr>brightness = 100, contrast = 100, saturation = 100, blur = 0, sepia = 0, grayscale = 0\<rparr>"

text \<open>
  The photo record that \<open>handleUpload\<close> builds for a file (identifier, data URL and file
  name given), and the state \<open>App\<close> starts from when nothing was saved.
\<close>

definition DEMO_AUDIO_URL :: string where
  "DEMO_AUDIO_URL = ''https://freepd.com/music/A%20New%20Beginning.mp3''"

definition uploadedPhoto :: "string \<Rightarrow> string \<Rightarrow> string \<Rightarrow> Photo" where
  "uploadedPhoto i u n =
     \<lparr>pid = i, url = u, originalUrl = u, name = n, category = UNCATEGORIZED, narration = [],
      audioNarrationUrl = None, filters = DEFAULT_FILTERS, rotation = 0\<rparr>"

definition initialState :: AppState where
  "initialState =
     \<lparr>photos = [], currentView = gallery, editingPhotoId = None,
      selectedAudio = Some DEMO_AUDIO_URL, isAudioPlaying = False, audioVolume = 50\<rparr>"

section \<open>Array primitives of JavaScript used by the store\<close>

text \<open>
  \<open>Array.prototype.findIndex\<close>: the index of the first element that satisfies the
  predicate, or \<open>-1\<close>.
\<close>

fun findIndex :: "('a \<Rightarrow> bool) \<Rightarrow> 'a list \<Rightarrow> int" where
  "findIndex P [] = -1"
| "findIndex P (x # xs) =
     (if P x then 0 else (let i = findIndex P xs in if i = -1 then -1 else i + 1))"

text \<open>
  \<open>Array.prototype.splice(start, deleteCount, ...items)\<close>: a negative \<open>start\<close> counts
  from the end and stops at 0, a \<open>start\<close> past the end is the length, and
  \<open>deleteCount\<close> is cut to what is left. The first component is the array afterwards,
  the second the removed elements (the return value of \<open>splice\<close>). The model is called
  \<open>splice_arr\<close>, the name \<open>splice\<close> being taken by the list library.
\<close>

definition splice_start :: "nat \<Rightarrow> int \<Rightarrow> nat" where
  "splice_start len start =
     (if start < 0 then nat (max (int len + start) 0) else min (nat start) len)"

definition splice_arr :: "'a list \<Rightarrow> int \<Rightarrow> nat \<Rightarrow> 'a list \<Rightarrow> 'a list \<times> 'a list" where
  "splice_arr xs start deleteCount items =
     (let s = splice_start (length xs) start;
          d = min deleteCount (length xs - s)
      in (take s xs @ items @ drop (s + d) xs, take d (drop s xs)))"

section \<open>The photo and session store (src/App.tsx)\<close>

text \<open>
  Every handler of \<open>App\<close> changes the state through a functional updater
  \<open>setState(prev => ...)\<close>; the model of a handler is that updater, a function from
  the previous state to the next.
\<close>

text \<open>
  The updater in \<open>processCategoriesQueue\<close> (and, with the same body, the
  \<open>onUpdateCategory\<close> callback handed to the gallery).
\<close>

definition updateCategory :: "string \<Rightarrow> string \<Rightarrow> AppState \<Rightarrow> AppState" where
  "updateCategory i cat prev =
     prev\<lparr>photos := map (\<lambda>existing. if pid existing = i then existing\<lparr>category := cat\<rparr>
                                      else existing) (photos prev)\<rparr>"

definition saveEditedPhoto :: "Photo \<Rightarrow> AppState \<Rightarrow> AppState" where
  "saveEditedPhoto updatedPhoto prev =
     prev\<lparr>photos := map (\<lambda>p. if pid p = pid updatedPhoto then updatedPhoto else p) (photos prev),
          currentView := gallery,
          editingPhotoId := None\<rparr>"

definition deletePhoto :: "string \<Rightarrow> AppState \<Rightarrow> AppState" where
  "deletePhoto i prev = prev\<lparr>photos := filter (\<lambda>p. pid p \<noteq> i) (photos prev)\<rparr>"

text \<open>
  \<open>handleDeleteCustomCategory\<close> runs two updaters, one on the list of custom
  categories and one on the state; the model returns both results.
\<close>

definition handleDeleteCustomCategory ::
  "string \<Rightarrow> string list \<times> AppState \<Rightarrow> string list \<times> AppState" where
  "handleDeleteCustomCategory cat = (\<lambda>(customCategories, prev).
     (filter (\<lambda>c. c \<noteq> cat) customCategories,
      prev\<lparr>photos := map (\<lambda>p. if category p = cat then p\<lparr>category := UNCATEGORIZED\<rparr> else p)
                          (photos prev)\<rparr>))"

text \<open>
  Where JavaScript raises an exception, or goes on with a value that the TypeScript types
  exclude, the model ends with a fault: \<open>RangeError\<close> (a write past the end of a view),
  \<open>UndefinedItem\<close> (an array element that is \<open>undefined\<close>) and \<open>RenderCrash\<close> (a
  component fails to render).
\<close>

datatype fault = UndefinedItem | RenderCrash | RangeError

text \<open>
  \<open>handleReorder\<close>. The destructuring \<open>const [movedItem] = photos.splice(fromIndex, 1)\<close>
  gives \<open>undefined\<close> when nothing was removed; the array would then hold a value that
  is no \<open>Photo\<close>, which the model reports as \<open>Inl UndefinedItem\<close>.
\<close>

definition handleReorder :: "string \<Rightarrow> string \<Rightarrow> AppState \<Rightarrow> fault + AppState" where
  "handleReorder fromId toId prev =
     (let photos0 = photos prev;
          fromIndex = findIndex (\<lambda>p. pid p = fromId) photos0;
          toIndex = findIndex (\<lambda>p. pid p = toId) photos0
      in if fromIndex = -1 \<or> toIndex = -1 \<or> fromIndex = toIndex then Inr prev
         else (let (photos1, removed) = splice_arr photos0 fromIndex 1 []
               in case removed of
                    [] \<Rightarrow> Inl UndefinedItem
                  | movedItem # _ \<Rightarrow>
                      (let newToIndex = findIndex (\<lambda>p. pid p = toId) photos1;
                           (photos2, _) = splice_arr photos1 newToIndex 0 [movedItem]
                       in Inr (prev\<lparr>photos := photos2\<rparr>))))"

section \<open>The media transcoder: WAV framing (src/services/geminiService.ts)\<close>

text \<open>
  Bytes are \<open>8 word\<close>. An \<open>ArrayBuffer\<close> is the list of its bytes, and a \<open>DataView\<close>
  or \<open>Uint8Array\<close> over it reads and writes that list. A \<open>Blob\<close> is its bytes and its
  type.
\<close>

type_synonym byte = "8 word"

record Blob =
  blob_bytes :: "byte list"
  blob_type :: string

text \<open>
  The \<open>n\<close> low-order bytes of an integer, least significant first: what
  \<open>DataView.setUint8\<close>, \<open>setUint16(_, _, true)\<close> and \<open>setUint32(_, _, true)\<close> store. The
  conversion of the value to the field's width (ToUint8, ToUint16, ToUint32) is the
  truncation to these bytes. A write that does not fit into the view raises
  \<open>RangeError\<close>.
\<close>

definition le_bytes :: "nat \<Rightarrow> int \<Rightarrow> byte list" where
  "le_bytes n v = map (\<lambda>k. word_of_int (v div 256 ^ k)) [0..<n]"

definition store_le :: "nat \<Rightarrow> byte list \<Rightarrow> nat \<Rightarrow> int \<Rightarrow> fault + byte list" where
  "store_le n view byteOffset v =
     (if byteOffset + n \<le> length view
      then Inr (take byteOffset view @ le_bytes n v @ drop (byteOffset + n) view)
      else Inl RangeError)"

definition setUint8 :: "byte list \<Rightarrow> nat \<Rightarrow> int \<Rightarrow> fault + byte list" where
  "setUint8 = store_le 1"

definition setUint16 :: "byte list \<Rightarrow> nat \<Rightarrow> int \<Rightarrow> fault + byte list" where
  "setUint16 = store_le 2"

definition setUint32 :: "byte list \<Rightarrow> nat \<Rightarrow> int \<Rightarrow> fault + byte list" where
  "setUint32 = store_le 4"

text \<open>
  The matching readers \<open>getUint16(_, true)\<close> and \<open>getUint32(_, true)\<close>. The program only
  writes the header; the readers say what a decoder of the header finds.
\<close>

definition from_le :: "byte list \<Rightarrow> int" where
  "from_le bs = foldr (\<lambda>b acc. uint b + 256 * acc) bs 0"

definition load_le :: "nat \<Rightarrow> byte list \<Rightarrow> nat \<Rightarrow> fault + int" where
  "load_le n view byteOffset =
     (if byteOffset + n \<le> length view
      then Inr (from_le (take n (drop byteOffset view)))
      else Inl RangeError)"

definition getUint16 :: "byte list \<Rightarrow> nat \<Rightarrow> fault + int" where
  "getUint16 = load_le 2"

definition getUint32 :: "byte list \<Rightarrow> nat \<Rightarrow> fault + int" where
  "getUint32 = load_le 4"

text \<open>Sequencing of steps that may raise: the first fault ends the run.\<close>

definition andThen :: "fault + 'a \<Rightarrow> ('a \<Rightarrow> fault + 'b) \<Rightarrow> fault + 'b" where
  "andThen r f = (case r of Inl e \<Rightarrow> Inl e | Inr x \<Rightarrow> f x)"

text \<open>The local helper \<open>writeString\<close> of \<open>pcmToWav\<close>: one \<open>setUint8\<close> per character code.\<close>

fun writeString :: "byte list \<Rightarrow> nat \<Rightarrow> string \<Rightarrow> fault + byte list" where
  "writeString view offset [] = Inr view"
| "writeString view offset (c # cs) =
     andThen (setUint8 view offset (int (of_char c))) (\<lambda>view'. writeString view' (Suc offset) cs)"

text \<open>
  \<open>new Uint8Array(buffer, byteOffset).set(source)\<close>: the typed array covers the buffer
  from \<open>byteOffset\<close> to its end, and \<open>set\<close> copies the source to its start; a source
  longer than the array raises \<open>RangeError\<close>.
\<close>

definition Uint8Array_set :: "byte list \<Rightarrow> nat \<Rightarrow> byte list \<Rightarrow> fault + byte list" where
  "Uint8Array_set buffer byteOffset source =
     (if byteOffset \<le> length buffer \<and> length source \<le> length buffer - byteOffset
      then Inr (take byteOffset buffer @ source @ drop (byteOffset + length source) buffer)
      else Inl RangeError)"

text \<open>
  \<open>pcmToWav\<close>. The sample rate is a JavaScript number; the model takes the integers.
  A new \<open>ArrayBuffer\<close> holds zeros.
\<close>

definition pcmToWav :: "byte list \<Rightarrow> int \<Rightarrow> fault + Blob" where
  "pcmToWav pcmData sampleRate =
     (let numChannels = 1;
          byteRate = sampleRate * numChannels * 2;
          blockAlign = numChannels * 2;
          buffer = replicate (44 + length pcmData) 0
      in andThen (writeString buffer 0 ''RIFF'') (\<lambda>b.
         andThen (setUint32 b 4 (36 + int (length pcmData))) (\<lambda>b.
         andThen (writeString b 8 ''WAVE'') (\<lambda>b.
         andThen (writeString b 12 ''fmt '') (\<lambda>b.
         andThen (setUint32 b 16 16) (\<lambda>b.
         andThen (setUint16 b 20 1) (\<lambda>b.
         andThen (setUint16 b 22 numChannels) (\<lambda>b.
         andThen (setUint32 b 24 sampleRate) (\<lambda>b.
         andThen (setUint32 b 28 byteRate) (\<lambda>b.
         andThen (setUint16 b 32 blockAlign) (\<lambda>b.
         andThen (setUint16 b 34 16) (\<lambda>b.
         andThen (writeString b 36 ''data'') (\<lambda>b.
         andThen (setUint32 b 40 (int (length pcmData))) (\<lambda>b.
         andThen (Uint8Array_set b 44 pcmData) (\<lambda>b.
         Inr \<lparr>blob_bytes = b, blob_type = ''audio/wav''\<rparr>)))))))))))))))"

text \<open>The default value of the parameter \<open>sampleRate\<close>.\<close>

definition default_sampleRate :: int where
  "default_sampleRate = 24000"

text \<open>
  Two notions used to state and prove the layout: a buffer written up to a position and
  zero from there on, and the 44 header bytes for a payload of \<open>n\<close> bytes at sample
  rate \<open>r\<close>, field by field in file order.
\<close>

definition filled :: "byte list \<Rightarrow> nat \<Rightarrow> byte list" where
  "filled xs m = xs @ replicate m 0"

definition wav_header :: "nat \<Rightarrow> int \<Rightarrow> byte list" where
  "wav_header n r =
     map (\<lambda>c. word_of_int (int (of_char c))) ''RIFF'' @ le_bytes 4 (36 + int n)
     @ map (\<lambda>c. word_of_int (int (of_char c))) ''WAVE''
     @ map (\<lambda>c. word_of_int (int (of_char c))) ''fmt '' @ le_bytes 4 16
     @ le_bytes 2 1 @ le_bytes 2 1 @ le_bytes 4 r @ le_bytes 4 (r * 2)
     @ le_bytes 2 2 @ le_bytes 2 16
     @ map (\<lambda>c. word_of_int (int (of_char c))) ''data'' @ le_bytes 4 (int n)"

section \<open>JavaScript numbers\<close>

text \<open>
  A JavaScript number is an IEEE 754 binary64 value. The finite ones are rational
  numbers, and the model computes with their values in \<open>rat\<close>: an arithmetic operation
  is the exact operation followed by rounding to the nearest binary64 value, ties to the
  even significand (\<open>fl\<close>). A binary64 value has a 53-bit significand and a least
  exponent of \<open>-1022\<close>; below \<open>2^-1022\<close> the spacing stays \<open>2^-1074\<close>. \<open>fl\<close> puts no
  upper bound on the exponent: it is used as it stands where the operands keep the result
  finite, and \<open>roundNumber\<close> below makes a result of magnitude \<open>2^1024\<close> and more an
  infinity. The sign of zero is outside the model.
\<close>

text \<open>The number of binary digits of a positive integer (0 for the others).\<close>

function bitlen :: "int \<Rightarrow> int" where
  "bitlen n = (if n \<le> 0 then 0 else 1 + bitlen (n div 2))"
  by pat_completeness auto
termination
  by (relation "measure nat") auto

declare bitlen.simps [simp del]

text \<open>The binary exponent of a positive rational: the \<open>e\<close> with \<open>2^e \<le> x < 2^(e+1)\<close>.\<close>

definition ilog2 :: "rat \<Rightarrow> int" where
  "ilog2 x =
     (let (p, q) = quotient_of x;
          e = bitlen p - bitlen q
      in if 2 powi e \<le> x then e else e - 1)"

text \<open>Rounding to the nearest integer, ties to the even one.\<close>

definition rne :: "rat \<Rightarrow> int" where
  "rne y =
     (let f = \<lfloor>y\<rfloor>; d = y - of_int f
      in if d < 1 / 2 then f else if 1 / 2 < d then f + 1 else if even f then f else f + 1)"

definition fl :: "rat \<Rightarrow> rat" where
  "fl x =
     (if x = 0 then 0
      else (let e = max (ilog2 \<bar>x\<bar>) (- 1022);
                u = 2 powi (e - 52)
            in sgn x * of_int (rne (\<bar>x\<bar> / u)) * u))"

text \<open>
  The operators \<open>*\<close> and \<open>/\<close> on numbers, \<open>Math.round\<close> (nearest integer, ties towards
  \<open>+\<infinity>\<close>; computed exactly), and the value of the literal \<open>0.05\<close>.
\<close>

definition fmul :: "rat \<Rightarrow> rat \<Rightarrow> rat" where
  "fmul a b = fl (a * b)"

definition fdiv :: "rat \<Rightarrow> rat \<Rightarrow> rat" where
  "fdiv a b = fl (a / b)"

definition Math_round :: "rat \<Rightarrow> int" where
  "Math_round x = \<lfloor>x + 1 / 2\<rfloor>"

definition literal_0_05 :: rat where
  "literal_0_05 = fl (5 / 100)"

text \<open>
  \<open>fmul\<close> and \<open>fdiv\<close> are the operators where the result is finite. In general a number
  is a finite value, one of the two infinities or \<open>NaN\<close>, and a product of finite numbers
  whose rounded magnitude reaches \<open>2^1024\<close> is an infinity. \<open>number_times\<close> is the
  operator \<open>*\<close> on all numbers, and \<open>Math_max\<close> is \<open>Math.max\<close> of a finite number and a
  number.
\<close>

datatype number = Num rat | PosInfinity | NegInfinity | NaN

definition roundNumber :: "rat \<Rightarrow> number" where
  "roundNumber r =
     (let v = fl r
      in if 2 ^ 1024 \<le> v then PosInfinity
         else if v \<le> - (2 ^ 1024) then NegInfinity
         else Num v)"

definition signedInfinity :: "rat \<Rightarrow> number" where
  "signedInfinity a = (if a = 0 then NaN else if 0 < a then PosInfinity else NegInfinity)"

fun number_times :: "number \<Rightarrow> number \<Rightarrow> number" where
  "number_times NaN b = NaN"
| "number_times a NaN = NaN"
| "number_times (Num a) (Num b) = roundNumber (a * b)"
| "number_times (Num a) PosInfinity = signedInfinity a"
| "number_times (Num a) NegInfinity = signedInfinity (- a)"
| "number_times PosInfinity (Num b) = signedInfinity b"
| "number_times NegInfinity (Num b) = signedInfinity (- b)"
| "number_times PosInfinity PosInfinity = PosInfinity"
| "number_times PosInfinity NegInfinity = NegInfinity"
| "number_times NegInfinity PosInfinity = NegInfinity"
| "number_times NegInfinity NegInfinity = PosInfinity"

fun Math_max :: "rat \<Rightarrow> number \<Rightarrow> number" where
  "Math_max a NaN = NaN"
| "Math_max a PosInfinity = PosInfinity"
| "Math_max a NegInfinity = Num a"
| "Math_max a (Num b) = Num (max a b)"

section \<open>The media transcoder: resizing and the point marker (src/services/geminiService.ts)\<close>

text \<open>
  The resize statements of \<open>fileToGenerativePart\<close> (and, with the same text, of
  \<open>removeObjectAtPoint\<close>): from the width and height of the decoded bitmap (unsigned
  integers) to the width and height given to the canvas.
\<close>

definition maxDimension :: rat where
  "maxDimension = 1024"

definition resizeDims :: "nat \<Rightarrow> nat \<Rightarrow> int \<times> int" where
  "resizeDims bitmapWidth bitmapHeight =
     (let width = (of_nat bitmapWidth :: rat);
          height = (of_nat bitmapHeight :: rat)
      in if width > maxDimension \<or> height > maxDimension
         then (let scale = fdiv maxDimension (max width height)
               in (Math_round (fmul width scale), Math_round (fmul height scale)))
         else (int bitmapWidth, int bitmapHeight))"

text \<open>
  The marker of \<open>removeObjectAtPoint\<close>: centre and radius of the circle drawn on the
  canvas of the given width and height, for the normalised click position \<open>x\<close>, \<open>y\<close>,
  which may be any number.
\<close>

definition pointMarker :: "number \<Rightarrow> number \<Rightarrow> int \<Rightarrow> int \<Rightarrow> number \<times> number \<times> number" where
  "pointMarker x y width height =
     (let centerX = number_times x (Num (of_int width));
          centerY = number_times y (Num (of_int height));
          radius = Math_max 20 (number_times (Num (of_int (min width height))) (Num literal_0_05))
      in (centerX, centerY, radius))"

section \<open>The AI gateway (src/services/geminiService.ts)\<close>

text \<open>
  The gateway functions are asynchronous and talk to the browser and to the remote model.
  The model makes that surrounding world a parameter: a record of what each outside
  operation answers. An operation that raises (or a promise that rejects) answers
  \<open>Throws\<close>. A gateway function returns its value together with the list of the network
  calls it made, in order: \<open>fetch\<close> of a URL and \<open>ai.models.generateContent\<close>.
  Logging to the console is not modelled.
\<close>

datatype 'a outcome = Throws | Returns 'a

datatype call = FetchCall string | GenerateContentCall string

text \<open>An \<open>inlineData\<close> part of a request.\<close>

record Part =
  mimeType :: string
  data :: string

text \<open>
  What was put on a canvas: the URL whose bitmap was drawn, the canvas size, and the
  circle put on it, if any: the centre and the radius passed to \<open>arc\<close>, and the fill style
  of the \<open>fill\<close> that follows.
\<close>

record Canvas =
  canvas_source :: string
  canvas_width :: int
  canvas_height :: int
  canvas_marker :: "((number \<times> number \<times> number) \<times> string) option"

text \<open>
  A request to \<open>generateContent\<close>: the model name, the inline part (if any), the text
  part and the prebuilt voice of the speech configuration (if any).
\<close>

record GenRequest =
  req_model :: string
  req_inline :: "Part option"
  req_text :: string
  req_voice :: "string option"

text \<open>
  What the gateway reads of a response: \<open>response.text\<close> (\<open>undefined\<close> is \<open>None\<close>), and
  \<open>response.candidates?.[0]?.content?.parts\<close> with, for each part, its
  \<open>inlineData?.data\<close>.
\<close>

record GenResponse =
  resp_text :: "string option"
  resp_parts :: "string option list option"

text \<open>
  The world: the module constant \<open>API_KEY\<close>; \<open>fetch\<close>, \<open>blob\<close> and
  \<open>createImageBitmap\<close> of a URL, giving the width and height of the bitmap; whether
  \<open>getContext('2d')\<close> gives a context; the payload of \<open>canvas.toDataURL(type, quality)\<close>
  after the comma (\<open>base64Url.split(',')[1]\<close>); \<open>fetch\<close>, \<open>blob\<close> and
  \<open>FileReader.readAsDataURL\<close> of an audio URL, giving the blob type and the payload;
  the remote model; \<open>atob\<close> followed by the copy of the character codes into a
  \<open>Uint8Array\<close>; and \<open>URL.createObjectURL\<close>.
\<close>

record World =
  API_KEY :: string
  fetchBitmap :: "string \<Rightarrow> (nat \<times> nat) outcome"
  getContext2d :: bool
  toDataURL :: "Canvas \<Rightarrow> string \<Rightarrow> rat \<Rightarrow> string outcome"
  fetchAudio :: "string \<Rightarrow> (string \<times> string) outcome"
  generateContent :: "GenRequest \<Rightarrow> GenResponse outcome"
  atob_bytes :: "string \<Rightarrow> byte list outcome"
  createObjectURL :: "Blob \<Rightarrow> string"

text \<open>
  \<open>String.prototype.trim\<close> on strings of 8-bit characters: the white space and line
  terminators among them are tab, line feed, vertical tab, form feed, carriage return,
  space and no-break space.
\<close>

definition isWhiteSpace :: "char \<Rightarrow> bool" where
  "isWhiteSpace c = (of_char c \<in> set [9, 10, 11, 12, 13, 32, 160 :: nat])"

definition trim :: "string \<Rightarrow> string" where
  "trim s = rev (dropWhile isWhiteSpace (rev (dropWhile isWhiteSpace s)))"

text \<open>\<open>response.text?.trim()\<close>.\<close>

definition trimmedText :: "GenResponse \<Rightarrow> string option" where
  "trimmedText response = map_option trim (resp_text response)"

text \<open>\<open>v || d\<close> for an optional string: \<open>undefined\<close> and the empty string are falsy.\<close>

definition orElse :: "string option \<Rightarrow> string \<Rightarrow> string" where
  "orElse v d = (case v of None \<Rightarrow> d | Some s \<Rightarrow> if s = [] then d else s)"

definition fileToGenerativePart :: "World \<Rightarrow> string \<Rightarrow> Part option \<times> call list" where
  "fileToGenerativePart W u =
     (case fetchBitmap W u of
        Throws \<Rightarrow> (None, [FetchCall u])
      | Returns (bitmapWidth, bitmapHeight) \<Rightarrow>
          (let (width, height) = resizeDims bitmapWidth bitmapHeight
           in if \<not> getContext2d W then (None, [FetchCall u])
              else (case toDataURL W
                           \<lparr>canvas_source = u, canvas_width = width, canvas_height = height,
                            canvas_marker = None\<rparr>
                           ''image/jpeg'' (fl (8 / 10)) of
                      Throws \<Rightarrow> (None, [FetchCall u])
                    | Returns d \<Rightarrow> (Some \<lparr>mimeType = ''image/jpeg'', data = d\<rparr>, [FetchCall u]))))"

definition audioToGenerativePart :: "World \<Rightarrow> string \<Rightarrow> Part option \<times> call list" where
  "audioToGenerativePart W u =
     (case fetchAudio W u of
        Throws \<Rightarrow> (None, [FetchCall u])
      | Returns (blobType, base64Data) \<Rightarrow>
          (Some \<lparr>mimeType = (if blobType = [] then ''audio/wav'' else blobType), data = base64Data\<rparr>,
           [FetchCall u]))"

definition categoryPrompt :: string where
  "categoryPrompt = ''Analyze this image and categorize it into exactly one of these categories: People, Landscapes, Animals, Objects, Indoor, Outdoor, Selfies. Return ONLY the category name.''"

definition suggestCategory :: "World \<Rightarrow> string \<Rightarrow> string \<times> call list" where
  "suggestCategory W photoUrl =
     (if API_KEY W = [] then (''Uncategorized'', [])
      else (case fileToGenerativePart W photoUrl of
              (None, calls) \<Rightarrow> (''Uncategorized'', calls)
            | (Some imageData, calls) \<Rightarrow>
                (case generateContent W
                        \<lparr>req_model = ''gemini-2.5-flash'', req_inline = Some imageData,
                         req_text = categoryPrompt, req_voice = None\<rparr> of
                   Throws \<Rightarrow> (''Uncategorized'', calls @ [GenerateContentCall ''gemini-2.5-flash''])
                 | Returns response \<Rightarrow>
                     (orElse (trimmedText response) ''Uncategorized'',
                      calls @ [GenerateContentCall ''gemini-2.5-flash'']))))"

definition generateAutoNarration :: "World \<Rightarrow> string \<Rightarrow> string \<Rightarrow> string \<times> call list" where
  "generateAutoNarration W photoUrl tone =
     (if API_KEY W = [] then (''API Key missing. Please provide a description manually.'', [])
      else (case fileToGenerativePart W photoUrl of
              (None, calls) \<Rightarrow> (''Could not process image.'', calls)
            | (Some imageData, calls) \<Rightarrow>
                (case generateContent W
                        \<lparr>req_model = ''gemini-2.5-flash'', req_inline = Some imageData,
                         req_text = ''Write a short, engaging caption (under 20 words) for this photo. Tone: ''
                                    @ tone @ ''.'',
                         req_voice = None\<rparr> of
                   Throws \<Rightarrow> (''Could not generate narration.'',
                              calls @ [GenerateContentCall ''gemini-2.5-flash''])
                 | Returns response \<Rightarrow>
                     (orElse (trimmedText response) [],
                      calls @ [GenerateContentCall ''gemini-2.5-flash'']))))"

definition transcribeAudio :: "World \<Rightarrow> string \<Rightarrow> string \<times> call list" where
  "transcribeAudio W audioUrl =
     (if API_KEY W = [] then (''API Key missing.'', [])
      else (case audioToGenerativePart W audioUrl of
              (None, calls) \<Rightarrow> (''Could not process audio data.'', calls)
            | (Some audioData, calls) \<Rightarrow>
                (case generateContent W
                        \<lparr>req_model = ''gemini-2.5-flash'', req_inline = Some audioData,
                         req_text = ''Transcribe the spoken audio into text. Return only the transcription text, no other commentary.'',
                         req_voice = None\<rparr> of
                   Throws \<Rightarrow> ([], calls @ [GenerateContentCall ''gemini-2.5-flash''])
                 | Returns response \<Rightarrow>
                     (orElse (trimmedText response) [],
                      calls @ [GenerateContentCall ''gemini-2.5-flash'']))))"

text \<open>
  The loop over the parts of an image response: the first part with a non-empty
  \<open>inlineData.data\<close>, as a PNG data URL; \<open>null\<close> when there is none.
\<close>

fun firstInlineData :: "string option list \<Rightarrow> string option" where
  "firstInlineData [] = None"
| "firstInlineData (part # parts) =
     (case part of
        None \<Rightarrow> firstInlineData parts
      | Some d \<Rightarrow> if d = [] then firstInlineData parts else Some (''data:image/png;base64,'' @ d))"

definition imageOfResponse :: "GenResponse \<Rightarrow> string option" where
  "imageOfResponse response =
     (case resp_parts response of None \<Rightarrow> None | Some parts \<Rightarrow> firstInlineData parts)"

definition stylizeImage :: "World \<Rightarrow> string \<Rightarrow> string \<Rightarrow> string option \<times> call list" where
  "stylizeImage W photoUrl style =
     (if API_KEY W = [] then (None, [])
      else (case fileToGenerativePart W photoUrl of
              (None, calls) \<Rightarrow> (None, calls)
            | (Some imageData, calls) \<Rightarrow>
                (case generateContent W
                        \<lparr>req_model = ''gemini-2.5-flash-image'', req_inline = Some imageData,
                         req_text = ''Redraw this image in a '' @ style
                                    @ '' style. Maintain the original composition and subject matter. High quality, detailed.'',
                         req_voice = None\<rparr> of
                   Throws \<Rightarrow> (None, calls @ [GenerateContentCall ''gemini-2.5-flash-image''])
                 | Returns response \<Rightarrow>
                     (imageOfResponse response,
                      calls @ [GenerateContentCall ''gemini-2.5-flash-image'']))))"

definition removeObject :: "World \<Rightarrow> string \<Rightarrow> string \<Rightarrow> string option \<times> call list" where
  "removeObject W photoUrl objectDescription =
     (if API_KEY W = [] then (None, [])
      else (case fileToGenerativePart W photoUrl of
              (None, calls) \<Rightarrow> (None, calls)
            | (Some imageData, calls) \<Rightarrow>
                (case generateContent W
                        \<lparr>req_model = ''gemini-2.5-flash-image'', req_inline = Some imageData,
                         req_text = ''Remove the '' @ objectDescription
                                    @ '' from this image. Fill in the background naturally to match the surroundings.'',
                         req_voice = None\<rparr> of
                   Throws \<Rightarrow> (None, calls @ [GenerateContentCall ''gemini-2.5-flash-image''])
                 | Returns response \<Rightarrow>
                     (imageOfResponse response,
                      calls @ [GenerateContentCall ''gemini-2.5-flash-image'']))))"

definition removeObjectAtPoint :: "World \<Rightarrow> string \<Rightarrow> number \<Rightarrow> number \<Rightarrow> string option \<times> call list" where
  "removeObjectAtPoint W photoUrl x y =
     (if API_KEY W = [] then (None, [])
      else (case fetchBitmap W photoUrl of
              Throws \<Rightarrow> (None, [FetchCall photoUrl])
            | Returns (bitmapWidth, bitmapHeight) \<Rightarrow>
                (let (width, height) = resizeDims bitmapWidth bitmapHeight;
                     canvas = \<lparr>canvas_source = photoUrl, canvas_width = width,
                               canvas_height = height,
                               canvas_marker = Some (pointMarker x y width height, ''#FF0000'')\<rparr>
                 in if \<not> getContext2d W then (None, [FetchCall photoUrl])
                    else (case toDataURL W canvas ''image/jpeg'' (fl (85 / 100)) of
                            Throws \<Rightarrow> (None, [FetchCall photoUrl])
                          | Returns d \<Rightarrow>
                              (case generateContent W
                                      \<lparr>req_model = ''gemini-2.5-flash-image'',
                                       req_inline = Some \<lparr>mimeType = ''image/jpeg'', data = d\<rparr>,
                                       req_text = ''Remove the object covered by the red circle and the red circle itself. Fill in the background naturally to match the surroundings.'',
                                       req_voice = None\<rparr> of
                                 Throws \<Rightarrow>
                                   (None, [FetchCall photoUrl,
                                           GenerateContentCall ''gemini-2.5-flash-image''])
                               | Returns response \<Rightarrow>
                                   (imageOfResponse response,
                                    [FetchCall photoUrl,
                                     GenerateContentCall ''gemini-2.5-flash-image'']))))))"

text \<open>
  The audio of a speech response, \<open>candidates?.[0]?.content?.parts?.[0]?.inlineData?.data\<close>,
  and its decoding, the statements that \<open>generateSpeech\<close> and \<open>generateAiTrack\<close> share
  (the spec's \<open>decodeSynthesizedAudio\<close>): \<open>atob\<close>, the byte copy, \<open>pcmToWav\<close> at the
  default sample rate and \<open>URL.createObjectURL\<close>. An exception on the way is caught by
  the caller's \<open>catch\<close>, which returns \<open>null\<close>.
\<close>

definition firstPartData :: "GenResponse \<Rightarrow> string option" where
  "firstPartData response =
     (case resp_parts response of
        None \<Rightarrow> None
      | Some [] \<Rightarrow> None
      | Some (part # _) \<Rightarrow> (case part of None \<Rightarrow> None | Some d \<Rightarrow> if d = [] then None else Some d))"

definition decodeSynthesizedAudio :: "World \<Rightarrow> string \<Rightarrow> string option" where
  "decodeSynthesizedAudio W base64Audio =
     (case atob_bytes W base64Audio of
        Throws \<Rightarrow> None
      | Returns bytes \<Rightarrow>
          (case pcmToWav bytes default_sampleRate of
             Inl _ \<Rightarrow> None
           | Inr wavBlob \<Rightarrow> Some (createObjectURL W wavBlob)))"

definition generateSpeech :: "World \<Rightarrow> string \<Rightarrow> string option \<times> call list" where
  "generateSpeech W text =
     (if API_KEY W = [] then (None, [])
      else (case generateContent W
                   \<lparr>req_model = ''gemini-2.5-flash-preview-tts'', req_inline = None,
                    req_text = text, req_voice = Some ''Kore''\<rparr> of
              Throws \<Rightarrow> (None, [GenerateContentCall ''gemini-2.5-flash-preview-tts''])
            | Returns response \<Rightarrow>
                (case firstPartData response of
                   None \<Rightarrow> (None, [GenerateContentCall ''gemini-2.5-flash-preview-tts''])
                 | Some base64Audio \<Rightarrow>
                     (decodeSynthesizedAudio W base64Audio,
                      [GenerateContentCall ''gemini-2.5-flash-preview-tts'']))))"

text \<open>The \<open>switch\<close> of \<open>generateAiTrack\<close>: prompt, voice and track name for a category.\<close>

definition trackPreset :: "string \<Rightarrow> string \<times> string \<times> string" where
  "trackPreset cat =
     (if cat = ''Cinematic''
      then (''Hum a slow, deep, and dramatic melody.'', ''Fenrir'', ''Epic Echoes (AI)'')
      else if cat = ''Upbeat''
      then (''Beatbox a simple, fast, and energetic rhythm.'', ''Puck'', ''Rhythm Burst (AI)'')
      else (''Hum a soft and soothing lullaby.'', ''Kore'', ''Gentle Breeze (AI)''))"

definition generateAiTrack :: "World \<Rightarrow> string \<Rightarrow> (string \<times> string) option \<times> call list" where
  "generateAiTrack W cat =
     (if API_KEY W = [] then (None, [])
      else (let (prompt, voiceName, trackName) = trackPreset cat
            in case generateContent W
                      \<lparr>req_model = ''gemini-2.5-flash-preview-tts'', req_inline = None,
                       req_text = prompt, req_voice = Some voiceName\<rparr> of
                 Throws \<Rightarrow> (None, [GenerateContentCall ''gemini-2.5-flash-preview-tts''])
               | Returns response \<Rightarrow>
                   (case firstPartData response of
                      None \<Rightarrow> (None, [GenerateContentCall ''gemini-2.5-flash-preview-tts''])
                    | Some base64Audio \<Rightarrow>
                        (map_option (\<lambda>u. (u, trackName)) (decodeSynthesizedAudio W base64Audio),
                         [GenerateContentCall ''gemini-2.5-flash-preview-tts'']))))"

text \<open>
  Two worlds for concrete runs. In \<open>offlineWorld\<close> no credential is configured and every
  outside operation fails. In \<open>dogWorld\<close> a credential is configured, bitmaps are 800 by
  600, and the remote model answers every request with the text " Dog" and a line feed.
\<close>

definition offlineWorld :: World where
  "offlineWorld =
     \<lparr>API_KEY = [], fetchBitmap = (\<lambda>_. Throws), getContext2d = False,
      toDataURL = (\<lambda>_ _ _. Throws), fetchAudio = (\<lambda>_. Throws),
      generateContent = (\<lambda>_. Throws), atob_bytes = (\<lambda>_. Throws),
      createObjectURL = (\<lambda>_. ''blob:0'')\<rparr>"

definition dogWorld :: World where
  "dogWorld =
     \<lparr>API_KEY = ''key'', fetchBitmap = (\<lambda>_. Returns (800, 600)), getContext2d = True,
      toDataURL = (\<lambda>_ _ _. Returns ''AAAA''), fetchAudio = (\<lambda>_. Throws),
      generateContent = (\<lambda>_. Returns \<lparr>resp_text = Some ('' Dog'' @ [CHR 0x0A]), resp_parts = None\<rparr>),
      atob_bytes = (\<lambda>_. Throws), createObjectURL = (\<lambda>_. ''blob:0'')\<rparr>"

text \<open>
  A world whose encoder tells whether the canvas carries the red circle of centre
  \<open>(500, 500)\<close> and radius 50, and whose model sends the image it received back.
\<close>

definition markerWorld :: World where
  "markerWorld =
     \<lparr>API_KEY = ''key'', fetchBitmap = (\<lambda>_. Returns (1000, 1000)), getContext2d = True,
      toDataURL = (\<lambda>canvas _ _.
         Returns (if canvas_marker canvas = Some ((Num 500, Num 500, Num 50), ''#FF0000'')
                  then ''circle'' else ''plain'')),
      fetchAudio = (\<lambda>_. Throws),
      generateContent = (\<lambda>request.
         Returns \<lparr>resp_text = None,
                  resp_parts = Some [map_option data (req_inline request)]\<rparr>),
      atob_bytes = (\<lambda>_. Throws), createObjectURL = (\<lambda>_. ''blob:0'')\<rparr>"

section \<open>The categorisation queue (src/App.tsx)\<close>

text \<open>
  \<open>processCategoriesQueue\<close> as the sequence of things that happen while it runs: the call
  of \<open>suggestCategory\<close> for a photo, the network calls made inside it, its resolution
  with a label, the state update for the photo's identifier, and the timer of 1000 ms
  that is awaited before the loop goes on. \<open>suggestCategory\<close> returns a label on every
  path, so the \<open>catch\<close> of the loop body is never entered.
\<close>

datatype event =
    Invoked string
  | Network call
  | Resolved string
  | StateUpdate string string
  | Delay nat

fun processCategoriesQueue :: "World \<Rightarrow> Photo list \<Rightarrow> event list" where
  "processCategoriesQueue W [] = []"
| "processCategoriesQueue W (p # newPhotos) =
     (let (cat, calls) = suggestCategory W (url p)
      in [Invoked (url p)] @ map Network calls
         @ [Resolved cat, StateUpdate (pid p) cat, Delay 1000]
         @ processCategoriesQueue W newPhotos)"

text \<open>
  The rate-limiting contract in the spec's words, as an acceptor of event sequences: a
  request is issued only when none is in flight; while one is in flight only its network
  calls happen, until it resolves; after a resolution come state updates and then a
  delay, which is not zero, before the queue is ready for the next request.
\<close>

datatype phase = Ready | InFlight | Settled

fun sequential :: "phase \<Rightarrow> event list \<Rightarrow> bool" where
  "sequential ph [] = True"
| "sequential Ready (Invoked u # es) = sequential InFlight es"
| "sequential InFlight (Network c # es) = sequential InFlight es"
| "sequential InFlight (Resolved cat # es) = sequential Settled es"
| "sequential Settled (StateUpdate i cat # es) = sequential Settled es"
| "sequential Settled (Delay n # es) = (0 < n \<and> sequential Ready es)"
| "sequential ph (e # es) = False"

fun isInvoked :: "event \<Rightarrow> bool" where
  "isInvoked (Invoked u) = True"
| "isInvoked e = False"

fun isStateUpdate :: "event \<Rightarrow> bool" where
  "isStateUpdate (StateUpdate i cat) = True"
| "isStateUpdate e = False"

text \<open>
  A world with a credential in which the bitmap of the URL \<open>data:2\<close> cannot be fetched
  and the remote model answers "People".
\<close>

definition flakyWorld :: World where
  "flakyWorld =
     \<lparr>API_KEY = ''key'',
      fetchBitmap = (\<lambda>u. if u = ''data:2'' then Throws else Returns (800, 600)),
      getContext2d = True,
      toDataURL = (\<lambda>_ _ _. Returns ''AAAA''), fetchAudio = (\<lambda>_. Throws),
      generateContent = (\<lambda>_. Returns \<lparr>resp_text = Some ''People'', resp_parts = None\<rparr>),
      atob_bytes = (\<lambda>_. Throws), createObjectURL = (\<lambda>_. ''blob:0'')\<rparr>"

section \<open>The image editor (src/components/Gallery.tsx)\<close>

text \<open>
  \<open>ImageEditor\<close> keeps a working copy \<open>editedPhoto\<close> of the photo it was opened on. Each
  handler changes the copy through \<open>setEditedPhoto\<close>; the model of a handler is the
  function from the previous copy to the next. A handler that waits for the gateway
  takes the value the call resolved with.
\<close>

text \<open>
  The copy starts as the spread \<open>{ ...photo }\<close> of the \<open>photo\<close> property and has every
  field of a \<open>Photo\<close> (\<open>Whole\<close>). \<open>handleReset\<close> replaces it by the spread of the current
  \<open>photo\<close> property, which is \<open>undefined\<close> once the photo under edit has left the store:
  the copy then has the fields \<open>filters\<close> and \<open>rotation\<close> only, the handlers that follow
  may give it a \<open>url\<close>, a \<open>narration\<close> and an \<open>audioNarrationUrl\<close>, and it never has an
  \<open>id\<close> or an \<open>originalUrl\<close> (\<open>Partial\<close>).
\<close>

record PartialPhoto =
  partial_url :: "string option"
  partial_narration :: "string option"
  partial_audioNarrationUrl :: "string option"
  partial_filters :: ImageFilter
  partial_rotation :: int

datatype EditorCopy = Whole Photo | Partial PartialPhoto

text \<open>Reading a field of the copy, and the spread \<open>{ ...prev, field: value }\<close>.\<close>

fun filtersOf :: "EditorCopy \<Rightarrow> ImageFilter" where
  "filtersOf (Whole p) = filters p"
| "filtersOf (Partial q) = partial_filters q"

fun rotationOf :: "EditorCopy \<Rightarrow> int" where
  "rotationOf (Whole p) = rotation p"
| "rotationOf (Partial q) = partial_rotation q"

fun narrationOf :: "EditorCopy \<Rightarrow> string option" where
  "narrationOf (Whole p) = Some (narration p)"
| "narrationOf (Partial q) = partial_narration q"

fun withFilters :: "ImageFilter \<Rightarrow> EditorCopy \<Rightarrow> EditorCopy" where
  "withFilters f (Whole p) = Whole (p\<lparr>filters := f\<rparr>)"
| "withFilters f (Partial q) = Partial (q\<lparr>partial_filters := f\<rparr>)"

fun withRotation :: "int \<Rightarrow> EditorCopy \<Rightarrow> EditorCopy" where
  "withRotation r (Whole p) = Whole (p\<lparr>rotation := r\<rparr>)"
| "withRotation r (Partial q) = Partial (q\<lparr>partial_rotation := r\<rparr>)"

fun withNarration :: "string \<Rightarrow> EditorCopy \<Rightarrow> EditorCopy" where
  "withNarration t (Whole p) = Whole (p\<lparr>narration := t\<rparr>)"
| "withNarration t (Partial q) = Partial (q\<lparr>partial_narration := Some t\<rparr>)"

fun withUrl :: "string \<Rightarrow> EditorCopy \<Rightarrow> EditorCopy" where
  "withUrl u (Whole p) = Whole (p\<lparr>url := u\<rparr>)"
| "withUrl u (Partial q) = Partial (q\<lparr>partial_url := Some u\<rparr>)"

fun withAudioNarrationUrl :: "string \<Rightarrow> EditorCopy \<Rightarrow> EditorCopy" where
  "withAudioNarrationUrl a (Whole p) = Whole (p\<lparr>audioNarrationUrl := Some a\<rparr>)"
| "withAudioNarrationUrl a (Partial q) = Partial (q\<lparr>partial_audioNarrationUrl := Some a\<rparr>)"

datatype FilterKey = Brightness | Contrast | Saturation | Blur | Sepia | Grayscale

fun setFilter :: "FilterKey \<Rightarrow> int \<Rightarrow> ImageFilter \<Rightarrow> ImageFilter" where
  "setFilter Brightness v f = f\<lparr>brightness := v\<rparr>"
| "setFilter Contrast v f = f\<lparr>contrast := v\<rparr>"
| "setFilter Saturation v f = f\<lparr>saturation := v\<rparr>"
| "setFilter Blur v f = f\<lparr>blur := v\<rparr>"
| "setFilter Sepia v f = f\<lparr>sepia := v\<rparr>"
| "setFilter Grayscale v f = f\<lparr>grayscale := v\<rparr>"

text \<open>The remainder operator \<open>%\<close> on integers: the result has the sign of the dividend.\<close>

definition js_rem :: "int \<Rightarrow> int \<Rightarrow> int" where
  "js_rem a b = sgn a * (\<bar>a\<bar> mod \<bar>b\<bar>)"

definition updateFilter :: "FilterKey \<Rightarrow> int \<Rightarrow> EditorCopy \<Rightarrow> EditorCopy" where
  "updateFilter key v prev = withFilters (setFilter key v (filtersOf prev)) prev"

definition handleRotate :: "EditorCopy \<Rightarrow> EditorCopy" where
  "handleRotate prev = withRotation (js_rem (rotationOf prev + 90) 360) prev"

text \<open>
  \<open>handleReset\<close> starts again from the \<open>photo\<close> property, the photo as the store has it
  (\<open>None\<close> when the store has no photo of the identifier under edit).
\<close>

fun handleReset :: "Photo option \<Rightarrow> EditorCopy" where
  "handleReset (Some photo) = Whole (photo\<lparr>filters := DEFAULT_FILTERS, rotation := 0\<rparr>)"
| "handleReset None =
     Partial \<lparr>partial_url = None, partial_narration = None, partial_audioNarrationUrl = None,
              partial_filters = DEFAULT_FILTERS, partial_rotation = 0\<rparr>"

definition handleAutoEnhance :: "EditorCopy \<Rightarrow> EditorCopy" where
  "handleAutoEnhance prev =
     withFilters ((filtersOf prev)\<lparr>brightness := 110, contrast := 115, saturation := 120,
                                   blur := 0, sepia := 0, grayscale := 0\<rparr>) prev"

text \<open>The filter presets of the filters tab; the preset "None" is \<open>handleReset\<close>.\<close>

definition applyPreset :: "string \<Rightarrow> EditorCopy \<Rightarrow> EditorCopy" where
  "applyPreset style p =
     (if style = ''Grayscale'' then withFilters ((filtersOf p)\<lparr>grayscale := 100, sepia := 0\<rparr>) p
      else if style = ''Sepia'' then withFilters ((filtersOf p)\<lparr>sepia := 100, grayscale := 0\<rparr>) p
      else if style = ''Warm'' then withFilters ((filtersOf p)\<lparr>brightness := 110, sepia := 30\<rparr>) p
      else if style = ''Cool'' then withFilters ((filtersOf p)\<lparr>contrast := 120, brightness := 90\<rparr>) p
      else p)"

text \<open>
  The narration text box and the continuation of \<open>handleAINarration\<close> set the narration.
\<close>

definition setNarration :: "string \<Rightarrow> EditorCopy \<Rightarrow> EditorCopy" where
  "setNarration t prev = withNarration t prev"

text \<open>
  The continuations of \<open>handleGenerateSpeech\<close>, of \<open>handleStylize\<close>,
  \<open>handleRemoveObject\<close> and \<open>handleImageClick\<close> (one body), and of \<open>handleTranscribe\<close>:
  each changes the copy only when the call resolved with a truthy value. A narration that
  is missing or empty is falsy.
\<close>

definition speechResolved :: "string option \<Rightarrow> EditorCopy \<Rightarrow> EditorCopy" where
  "speechResolved audioUrl prev =
     (case audioUrl of
        None \<Rightarrow> prev
      | Some a \<Rightarrow> if a = [] then prev else withAudioNarrationUrl a prev)"

definition imageResolved :: "string option \<Rightarrow> EditorCopy \<Rightarrow> EditorCopy" where
  "imageResolved newImageUrl prev =
     (case newImageUrl of
        None \<Rightarrow> prev
      | Some u \<Rightarrow> if u = [] then prev else withUrl u prev)"

definition transcribeResolved :: "string \<Rightarrow> EditorCopy \<Rightarrow> EditorCopy" where
  "transcribeResolved t prev =
     (if t = [] then prev
      else withNarration (case narrationOf prev of
                            None \<Rightarrow> t
                          | Some n \<Rightarrow> if n = [] then t else n @ [CHR 0x0A] @ t) prev)"

definition recordingStopped :: "string \<Rightarrow> EditorCopy \<Rightarrow> EditorCopy" where
  "recordingStopped audioUrl prev = withAudioNarrationUrl audioUrl prev"

text \<open>
  The Save button hands the copy to \<open>saveEditedPhoto\<close>. The \<open>id\<close> of a partial copy is
  \<open>undefined\<close> and equals the \<open>id\<close> of no photo, so that every photo stays.
\<close>

fun saveEditedCopy :: "EditorCopy \<Rightarrow> AppState \<Rightarrow> AppState" where
  "saveEditedCopy (Whole updatedPhoto) prev = saveEditedPhoto updatedPhoto prev"
| "saveEditedCopy (Partial updatedPhoto) prev =
     prev\<lparr>photos := map (\<lambda>p. p) (photos prev),
          currentView := gallery,
          editingPhotoId := None\<rparr>"

section \<open>Runs of the application (src/App.tsx)\<close>

text \<open>
  The state of a run: the state of \<open>App\<close>, the list of custom categories, and the
  working copy of the editor while the editor is mounted. \<open>App\<close> renders the editor
  exactly when the view is \<open>editor\<close> and \<open>editingPhotoId\<close> is truthy; on mounting, the
  copy is taken from the photo found by that identifier (\<open>find(...)!\<close>), and a component
  that stays mounted keeps its copy. Mounting on a missing photo makes the first render
  fail (\<open>RenderCrash\<close>: the copy \<open>{ ...undefined }\<close> has no \<open>filters\<close> to read); a mounted
  editor renders any copy that has \<open>filters\<close> and \<open>rotation\<close>.
\<close>

record Sys =
  app :: AppState
  customCategories :: "string list"
  editedPhoto :: "EditorCopy option"

definition photoProp :: "AppState \<Rightarrow> Photo option" where
  "photoProp st =
     (case editingPhotoId st of
        None \<Rightarrow> None
      | Some i \<Rightarrow> find (\<lambda>p. pid p = i) (photos st))"

definition editorRendered :: "AppState \<Rightarrow> bool" where
  "editorRendered st =
     (currentView st = editor \<and> (case editingPhotoId st of None \<Rightarrow> False | Some i \<Rightarrow> i \<noteq> []))"

definition render :: "Sys \<Rightarrow> fault + Sys" where
  "render s =
     (if editorRendered (app s)
      then (case editedPhoto s of
              Some e \<Rightarrow> Inr s
            | None \<Rightarrow>
                (case photoProp (app s) of
                   None \<Rightarrow> Inl RenderCrash
                 | Some photo \<Rightarrow> Inr (s\<lparr>editedPhoto := Some (Whole photo)\<rparr>)))
      else Inr (s\<lparr>editedPhoto := None\<rparr>))"

text \<open>
  The operations of a run: the handlers of \<open>App\<close> (upload and demo both append new
  photos), the handlers of the editor, and the resolutions of gateway calls. A handler
  of the editor does nothing while the editor is not mounted.
\<close>

datatype Op =
    AddPhotos "Photo list"
  | Reorder string string
  | UpdateCategory string string
  | DeletePhoto string
  | AddCustomCategory string
  | DeleteCustomCategory string
  | OnEdit string
  | OnCancel
  | OnSave
  | StartSlide
  | CloseSlide
  | UpdateFilter FilterKey int
  | Rotate
  | Reset
  | AutoEnhance
  | Preset string
  | NarrationChanged string
  | NarrationResolved string
  | SpeechResolved "string option"
  | StylizeResolved "string option"
  | RemoveObjectResolved "string option"
  | PointRemovalResolved "string option"
  | TranscribeResolved string
  | RecordingStopped string

definition editorUpdate :: "(EditorCopy \<Rightarrow> EditorCopy) \<Rightarrow> Sys \<Rightarrow> fault + Sys" where
  "editorUpdate f s = Inr (s\<lparr>editedPhoto := map_option f (editedPhoto s)\<rparr>)"

definition resetEditor :: "Sys \<Rightarrow> fault + Sys" where
  "resetEditor s =
     (case editedPhoto s of
        None \<Rightarrow> Inr s
      | Some e \<Rightarrow> Inr (s\<lparr>editedPhoto := Some (handleReset (photoProp (app s)))\<rparr>))"

fun step :: "Op \<Rightarrow> Sys \<Rightarrow> fault + Sys" where
  "step (AddPhotos newPhotos) s =
     render (s\<lparr>app := (app s)\<lparr>photos := photos (app s) @ newPhotos\<rparr>\<rparr>)"
| "step (Reorder fromId toId) s =
     andThen (handleReorder fromId toId (app s)) (\<lambda>st. render (s\<lparr>app := st\<rparr>))"
| "step (UpdateCategory i cat) s = render (s\<lparr>app := updateCategory i cat (app s)\<rparr>)"
| "step (DeletePhoto i) s = render (s\<lparr>app := deletePhoto i (app s)\<rparr>)"
| "step (AddCustomCategory c) s = render (s\<lparr>customCategories := customCategories s @ [c]\<rparr>)"
| "step (DeleteCustomCategory c) s =
     (let (cats, st) = handleDeleteCustomCategory c (customCategories s, app s)
      in render (s\<lparr>app := st, customCategories := cats\<rparr>))"
| "step (OnEdit i) s =
     render (s\<lparr>app := (app s)\<lparr>currentView := editor, editingPhotoId := Some i\<rparr>\<rparr>)"
| "step OnCancel s =
     render (s\<lparr>app := (app s)\<lparr>currentView := gallery, editingPhotoId := None\<rparr>\<rparr>)"
| "step OnSave s =
     (case editedPhoto s of
        None \<Rightarrow> Inr s
      | Some e \<Rightarrow> render (s\<lparr>app := saveEditedCopy e (app s)\<rparr>))"
| "step StartSlide s = render (s\<lparr>app := (app s)\<lparr>currentView := slideshow\<rparr>\<rparr>)"
| "step CloseSlide s = render (s\<lparr>app := (app s)\<lparr>currentView := gallery\<rparr>\<rparr>)"
| "step (UpdateFilter key v) s = editorUpdate (updateFilter key v) s"
| "step Rotate s = editorUpdate handleRotate s"
| "step Reset s = resetEditor s"
| "step AutoEnhance s = editorUpdate handleAutoEnhance s"
| "step (Preset style) s =
     (if style = ''None'' then resetEditor s else editorUpdate (applyPreset style) s)"
| "step (NarrationChanged t) s = editorUpdate (setNarration t) s"
| "step (NarrationResolved t) s = editorUpdate (setNarration t) s"
| "step (SpeechResolved audioUrl) s = editorUpdate (speechResolved audioUrl) s"
| "step (StylizeResolved newImageUrl) s = editorUpdate (imageResolved newImageUrl) s"
| "step (RemoveObjectResolved newImageUrl) s = editorUpdate (imageResolved newImageUrl) s"
| "step (PointRemovalResolved newImageUrl) s = editorUpdate (imageResolved newImageUrl) s"
| "step (TranscribeResolved t) s = editorUpdate (transcribeResolved t) s"
| "step (RecordingStopped audioUrl) s = editorUpdate (recordingStopped audioUrl) s"

text \<open>
  A run applies the operations in order and ends at the first fault, the application
  being gone: its result is the last state reached, and the fault, if any.
\<close>

fun run :: "Op list \<Rightarrow> Sys \<Rightarrow> Sys \<times> fault option" where
  "run [] s = (s, None)"
| "run (op # ops) s =
     (case step op s of
        Inl f \<Rightarrow> (s, Some f)
      | Inr s' \<Rightarrow> run ops s')"

text \<open>The photos a run creates, and a run's starting state.\<close>

fun addedBy :: "Op \<Rightarrow> Photo list" where
  "addedBy (AddPhotos newPhotos) = newPhotos"
| "addedBy _ = []"

definition startSys :: Sys where
  "startSys = \<lparr>app = initialState, customCategories = [], editedPhoto = None\<rparr>"

text \<open>
  A photo "has the original it was created with" with respect to the list of created
  photos when the created photo of its identifier has its \<open>originalUrl\<close>.
\<close>

definition keepsOriginal :: "Photo list \<Rightarrow> Photo \<Rightarrow> bool" where
  "keepsOriginal created p = list_ex (\<lambda>q. pid q = pid p \<and> originalUrl q = originalUrl p) created"

text \<open>
  The invariant of a run, for a list of created photos: every photo of the store, and
  the working copy of the editor when it is a whole photo, has the original it was
  created with.
\<close>

definition originalsKept :: "Photo list \<Rightarrow> Sys \<Rightarrow> bool" where
  "originalsKept created s \<longleftrightarrow>
     (\<forall>p\<in>set (photos (app s)). keepsOriginal created p)
     \<and> (\<forall>e. editedPhoto s = Some (Whole e) \<longrightarrow> keepsOriginal created e)"

text \<open>
  A handler that maps a whole copy to a whole copy of the same \<open>id\<close> and \<open>originalUrl\<close>,
  and a partial copy to a partial copy, keeps the invariant.
\<close>

definition keepsIdentity :: "(EditorCopy \<Rightarrow> EditorCopy) \<Rightarrow> bool" where
  "keepsIdentity f \<longleftrightarrow>
     (\<forall>p. \<exists>p'. f (Whole p) = Whole p' \<and> pid p' = pid p \<and> originalUrl p' = originalUrl p)
     \<and> (\<forall>q. \<exists>q'. f (Partial q) = Partial q')"

section \<open>Properties of the store\<close>

lemma findIndex_range: "findIndex P xs = -1 \<or> (0 \<le> findIndex P xs \<and> findIndex P xs < int (length xs))"
  by (induction xs) (auto simp: Let_def)

lemma findIndex_none_iff: "findIndex P xs = -1 \<longleftrightarrow> (\<forall>x\<in>set xs. \<not> P x)"
proof (induction xs)
  case Nil
  show ?case by simp
next
  case (Cons x xs)
  have "findIndex P xs \<noteq> -1 \<Longrightarrow> findIndex P xs + 1 \<noteq> -1"
    using findIndex_range [of P xs] by auto
  with Cons show ?case by (auto simp: Let_def)
qed

subsection \<open>Updates by identifier\<close>

lemma map_if_never: "\<forall>x\<in>set xs. \<not> P x \<Longrightarrow> map (\<lambda>x. if P x then f x else x) xs = xs"
  by (induction xs) auto

text \<open>
  C7. When no photo of the state carries the identifier (the photo was deleted while a
  call was in flight), the category update issued by the categorisation queue and by the
  gallery returns the very same state, and saving an edited photo with that identifier
  leaves the photo sequence as it was. Both are total functions: nothing is raised.
\<close>

theorem update_missing_id_is_noop:
  assumes "i \<notin> pid ` set (photos st)"
  shows "updateCategory i cat st = st
       \<and> (pid u = i \<longrightarrow> photos (saveEditedPhoto u st) = photos st)"
proof -
  have none: "\<forall>p\<in>set (photos st). \<not> pid p = i"
    using assms by auto
  have "map (\<lambda>p. if pid p = i then p\<lparr>category := cat\<rparr> else p) (photos st) = photos st"
    using none by (rule map_if_never)
  moreover have "map (\<lambda>p. if pid p = i then u else p) (photos st) = photos st"
    using none by (rule map_if_never)
  ultimately show ?thesis
    by (simp add: updateCategory_def saveEditedPhoto_def)
qed

theorem update_missing_id_is_noop_witness:
  "''b'' \<notin> pid ` set (photos (initialState\<lparr>photos := [uploadedPhoto ''a'' ''data:1'' ''one.png'']\<rparr>))
   \<and> updateCategory ''b'' ''People'' (initialState\<lparr>photos := [uploadedPhoto ''a'' ''data:1'' ''one.png'']\<rparr>)
       = initialState\<lparr>photos := [uploadedPhoto ''a'' ''data:1'' ''one.png'']\<rparr>
   \<and> photos (saveEditedPhoto (uploadedPhoto ''b'' ''data:2'' ''two.png'')
                (initialState\<lparr>photos := [uploadedPhoto ''a'' ''data:1'' ''one.png'']\<rparr>))
       = [uploadedPhoto ''a'' ''data:1'' ''one.png'']"
  using update_missing_id_is_noop
    [of "''b''" "initialState\<lparr>photos := [uploadedPhoto ''a'' ''data:1'' ''one.png'']\<rparr>"
        "''People''" "uploadedPhoto ''b'' ''data:2'' ''two.png''"]
  by (simp add: uploadedPhoto_def)

subsection \<open>Deleting a custom category\<close>

text \<open>
  C8. Deleting the custom category \<open>c\<close> keeps the photo sequence position by position:
  a photo labelled \<open>c\<close> becomes the same photo labelled "Uncategorized", every other
  photo is untouched; nothing else of the state changes; and the list of custom
  categories is the old one without \<open>c\<close>, so \<open>c\<close> is no longer in it.
\<close>

theorem delete_custom_category_reassigns:
  assumes "handleDeleteCustomCategory c (cats, st) = (cats', st')"
  shows "length (photos st') = length (photos st)
       \<and> (\<forall>k < length (photos st).
            (category (photos st ! k) = c \<longrightarrow>
               photos st' ! k = (photos st ! k)\<lparr>category := ''Uncategorized''\<rparr>)
          \<and> (category (photos st ! k) \<noteq> c \<longrightarrow> photos st' ! k = photos st ! k))
       \<and> st' = st\<lparr>photos := photos st'\<rparr>
       \<and> cats' = filter (\<lambda>x. x \<noteq> c) cats
       \<and> c \<notin> set cats'"
  using assms by (auto simp: handleDeleteCustomCategory_def UNCATEGORIZED_def)

theorem delete_custom_category_reassigns_witness:
  "handleDeleteCustomCategory ''Trips''
     ([''Trips'', ''Pets''],
      initialState\<lparr>photos := [(uploadedPhoto ''a'' ''data:1'' ''one.png'')\<lparr>category := ''Trips''\<rparr>,
                              (uploadedPhoto ''b'' ''data:2'' ''two.png'')\<lparr>category := ''Pets''\<rparr>]\<rparr>)
   = ([''Pets''],
      initialState\<lparr>photos := [uploadedPhoto ''a'' ''data:1'' ''one.png'',
                              (uploadedPhoto ''b'' ''data:2'' ''two.png'')\<lparr>category := ''Pets''\<rparr>]\<rparr>)
   \<and> ''Trips'' \<notin> set [''Pets'']"
proof -
  have run: "handleDeleteCustomCategory ''Trips''
     ([''Trips'', ''Pets''],
      initialState\<lparr>photos := [(uploadedPhoto ''a'' ''data:1'' ''one.png'')\<lparr>category := ''Trips''\<rparr>,
                              (uploadedPhoto ''b'' ''data:2'' ''two.png'')\<lparr>category := ''Pets''\<rparr>]\<rparr>)
   = ([''Pets''],
      initialState\<lparr>photos := [uploadedPhoto ''a'' ''data:1'' ''one.png'',
                              (uploadedPhoto ''b'' ''data:2'' ''two.png'')\<lparr>category := ''Pets''\<rparr>]\<rparr>)"
    by (simp add: handleDeleteCustomCategory_def uploadedPhoto_def)
  from delete_custom_category_reassigns [OF run] run show ?thesis
    by blast
qed

subsection \<open>Reordering\<close>

lemma splice_remove_one:
  assumes "0 \<le> i" "i < int (length xs)"
  shows "splice_arr xs i (Suc 0) [] = (take (nat i) xs @ drop (Suc (nat i)) xs, [xs ! nat i])"
proof -
  have n: "nat i < length xs"
    using assms by linarith
  have s: "splice_start (length xs) i = nat i"
    using assms by (simp add: splice_start_def)
  have d: "min (Suc 0) (length xs - nat i) = Suc 0"
    using n by linarith
  have "drop (nat i) xs = xs ! nat i # drop (Suc (nat i)) xs"
    using n by (simp add: Cons_nth_drop_Suc)
  then have t: "take (Suc 0) (drop (nat i) xs) = [xs ! nat i]"
    by simp
  show ?thesis
    by (simp add: splice_arr_def s d t Let_def)
qed

lemma splice_insert_one:
  "splice_arr ys j 0 [m] = (take (splice_start (length ys) j) ys @ [m] @ drop (splice_start (length ys) j) ys, [])"
  by (simp add: splice_arr_def Let_def)

lemma mset_remove_nth:
  assumes "n < length xs"
  shows "mset (take n xs @ drop (Suc n) xs) + {#xs ! n#} = mset xs"
proof -
  have "xs = take n xs @ xs ! n # drop (Suc n) xs"
    using assms by (simp add: id_take_nth_drop)
  then have "mset xs = mset (take n xs @ xs ! n # drop (Suc n) xs)"
    by simp
  then show ?thesis by simp
qed

lemma mset_insert_at: "mset (take s ys @ [m] @ drop s ys) = mset ys + {#m#}"
proof -
  have "mset (take s ys) + mset (drop s ys) = mset ys"
    by (metis append_take_drop_id mset_append)
  then show ?thesis by simp
qed

lemma handleReorder_cases:
  "handleReorder f t st = Inr st
   \<or> (\<exists>n s. n < length (photos st)
        \<and> handleReorder f t st =
            Inr (st\<lparr>photos := take s (take n (photos st) @ drop (Suc n) (photos st))
                                @ [photos st ! n]
                                @ drop s (take n (photos st) @ drop (Suc n) (photos st))\<rparr>))"
proof -
  let ?fi = "findIndex (\<lambda>p. pid p = f) (photos st)"
  let ?ti = "findIndex (\<lambda>p. pid p = t) (photos st)"
  show ?thesis
  proof (cases "?fi = -1 \<or> ?ti = -1 \<or> ?fi = ?ti")
    case True
    then show ?thesis by (auto simp: handleReorder_def Let_def)
  next
    case False
    then have r: "0 \<le> ?fi" "?fi < int (length (photos st))"
      using findIndex_range [of "\<lambda>p. pid p = f" "photos st"] by auto
    then have n: "nat ?fi < length (photos st)" by linarith
    have "handleReorder f t st =
            Inr (st\<lparr>photos := fst (splice_arr (take (nat ?fi) (photos st) @ drop (Suc (nat ?fi)) (photos st))
                 (findIndex (\<lambda>p. pid p = t) (take (nat ?fi) (photos st) @ drop (Suc (nat ?fi)) (photos st)))
                 0 [photos st ! nat ?fi])\<rparr>)"
      using False by (simp add: handleReorder_def Let_def splice_remove_one [OF r] split_beta)
    then show ?thesis
      using n unfolding splice_insert_one fst_conv by blast
  qed
qed

text \<open>
  C10. \<open>handleReorder\<close> always returns a state (the \<open>undefined\<close> case of the
  destructuring never happens); the photo sequence of the result holds exactly the
  photo records of the original, each as often as before, so it is a permutation with
  every record unmodified; no other field changes; and the state is returned as it is
  when the two identifiers are equal or one of them is carried by no photo.
\<close>

theorem handleReorder_is_permutation:
  "\<exists>st'. handleReorder fromId toId st = Inr st'
        \<and> mset (photos st') = mset (photos st)
        \<and> st' = st\<lparr>photos := photos st'\<rparr>
        \<and> (fromId = toId \<or> fromId \<notin> pid ` set (photos st) \<or> toId \<notin> pid ` set (photos st)
             \<longrightarrow> st' = st)"
proof -
  have unchanged: "handleReorder fromId toId st = Inr st"
    if "fromId = toId \<or> fromId \<notin> pid ` set (photos st) \<or> toId \<notin> pid ` set (photos st)"
  proof -
    have "findIndex (\<lambda>p. pid p = fromId) (photos st) = -1
        \<or> findIndex (\<lambda>p. pid p = toId) (photos st) = -1
        \<or> findIndex (\<lambda>p. pid p = fromId) (photos st) = findIndex (\<lambda>p. pid p = toId) (photos st)"
      using that by (auto simp: findIndex_none_iff)
    then show ?thesis by (auto simp: handleReorder_def Let_def)
  qed
  from handleReorder_cases [of fromId toId st] show ?thesis
  proof
    assume "handleReorder fromId toId st = Inr st"
    then show ?thesis by simp
  next
    assume "\<exists>n s. n < length (photos st)
        \<and> handleReorder fromId toId st =
            Inr (st\<lparr>photos := take s (take n (photos st) @ drop (Suc n) (photos st))
                                @ [photos st ! n]
                                @ drop s (take n (photos st) @ drop (Suc n) (photos st))\<rparr>)"
    then obtain n s where n: "n < length (photos st)"
      and eq: "handleReorder fromId toId st =
            Inr (st\<lparr>photos := take s (take n (photos st) @ drop (Suc n) (photos st))
                                @ [photos st ! n]
                                @ drop s (take n (photos st) @ drop (Suc n) (photos st))\<rparr>)"
      by blast
    have "mset (take s (take n (photos st) @ drop (Suc n) (photos st)) @ [photos st ! n]
                @ drop s (take n (photos st) @ drop (Suc n) (photos st)))
          = mset (photos st)"
      unfolding mset_insert_at using mset_remove_nth [OF n] by simp
    with eq unchanged show ?thesis by auto
  qed
qed

theorem handleReorder_is_permutation_witness:
  "handleReorder ''c'' ''a''
     (initialState\<lparr>photos := [uploadedPhoto ''a'' ''data:1'' ''one.png'',
                             uploadedPhoto ''b'' ''data:2'' ''two.png'',
                             uploadedPhoto ''c'' ''data:3'' ''three.png'']\<rparr>)
   = Inr (initialState\<lparr>photos := [uploadedPhoto ''c'' ''data:3'' ''three.png'',
                                  uploadedPhoto ''a'' ''data:1'' ''one.png'',
                                  uploadedPhoto ''b'' ''data:2'' ''two.png'']\<rparr>)
   \<and> handleReorder ''a'' ''z''
     (initialState\<lparr>photos := [uploadedPhoto ''a'' ''data:1'' ''one.png'',
                             uploadedPhoto ''b'' ''data:2'' ''two.png'']\<rparr>)
   = Inr (initialState\<lparr>photos := [uploadedPhoto ''a'' ''data:1'' ''one.png'',
                                  uploadedPhoto ''b'' ''data:2'' ''two.png'']\<rparr>)"
proof -
  have moved: "handleReorder ''c'' ''a''
     (initialState\<lparr>photos := [uploadedPhoto ''a'' ''data:1'' ''one.png'',
                             uploadedPhoto ''b'' ''data:2'' ''two.png'',
                             uploadedPhoto ''c'' ''data:3'' ''three.png'']\<rparr>)
   = Inr (initialState\<lparr>photos := [uploadedPhoto ''c'' ''data:3'' ''three.png'',
                                  uploadedPhoto ''a'' ''data:1'' ''one.png'',
                                  uploadedPhoto ''b'' ''data:2'' ''two.png'']\<rparr>)"
    by (simp add: handleReorder_def uploadedPhoto_def splice_arr_def splice_start_def Let_def)
  have absent: "''a'' = ''z'' \<or> ''a'' \<notin> pid ` set (photos (initialState\<lparr>photos := [uploadedPhoto ''a'' ''data:1'' ''one.png'',
                             uploadedPhoto ''b'' ''data:2'' ''two.png'']\<rparr>))
      \<or> ''z'' \<notin> pid ` set (photos (initialState\<lparr>photos := [uploadedPhoto ''a'' ''data:1'' ''one.png'',
                             uploadedPhoto ''b'' ''data:2'' ''two.png'']\<rparr>))"
    by (simp add: uploadedPhoto_def)
  from handleReorder_is_permutation [of "''a''" "''z''"
      "initialState\<lparr>photos := [uploadedPhoto ''a'' ''data:1'' ''one.png'',
                             uploadedPhoto ''b'' ''data:2'' ''two.png'']\<rparr>"] absent
  have "handleReorder ''a'' ''z''
     (initialState\<lparr>photos := [uploadedPhoto ''a'' ''data:1'' ''one.png'',
                             uploadedPhoto ''b'' ''data:2'' ''two.png'']\<rparr>)
   = Inr (initialState\<lparr>photos := [uploadedPhoto ''a'' ''data:1'' ''one.png'',
                                  uploadedPhoto ''b'' ''data:2'' ''two.png'']\<rparr>)"
    by blast
  with moved show ?thesis by blast
qed

section \<open>Properties of the WAV framing\<close>

lemma le_bytes_Suc: "le_bytes (Suc n) v = word_of_int v # le_bytes n (v div 256)"
proof -
  have "[0..<Suc n] = 0 # map Suc [0..<n]"
    by (simp add: upt_conv_Cons map_Suc_upt del: upt_Suc)
  then show ?thesis
    by (simp add: le_bytes_def comp_def zdiv_zmult2_eq del: upt_Suc)
qed

lemma length_le_bytes [simp]: "length (le_bytes n v) = n"
  by (simp add: le_bytes_def)

lemma from_le_bytes: "from_le (le_bytes n v) = v mod 256 ^ n"
proof (induction n arbitrary: v)
  case 0
  show ?case by (simp add: le_bytes_def from_le_def)
next
  case (Suc n)
  have "from_le (le_bytes (Suc n) v) = uint (word_of_int v :: byte) + 256 * from_le (le_bytes n (v div 256))"
    by (simp add: le_bytes_Suc from_le_def)
  also have "\<dots> = v mod 256 + 256 * ((v div 256) mod 256 ^ n)"
    by (simp add: Suc.IH uint_word_of_int)
  also have "\<dots> = v mod 256 ^ Suc n"
    using zmod_zmult2_eq [of "256 ^ n" v 256] by simp
  finally show ?case .
qed

lemma store_le_fresh:
  assumes "length xs = off" "n \<le> m"
  shows "store_le n (xs @ replicate m 0) off v = Inr ((xs @ le_bytes n v) @ replicate (m - n) 0)"
  using assms by (simp add: store_le_def)


lemma writeString_fresh:
  assumes "length xs = off" "length s \<le> m"
  shows "writeString (xs @ replicate m 0) off s
           = Inr ((xs @ map (\<lambda>c. word_of_int (int (of_char c))) s) @ replicate (m - length s) 0)"
  using assms
proof (induction s arbitrary: xs off m)
  case Nil
  then show ?case by simp
next
  case (Cons c cs)
  from Cons.prems obtain m' where m: "m = Suc m'" "length cs \<le> m'"
    by (cases m) auto
  have one: "le_bytes (Suc 0) (int (of_char c)) = [word_of_int (int (of_char c))]"
    by (simp add: le_bytes_def)
  have "setUint8 (xs @ replicate m 0) off (int (of_char c))
          = Inr ((xs @ [word_of_int (int (of_char c))]) @ replicate m' 0)"
    using Cons.prems m store_le_fresh [of xs off 1 m "int (of_char c)"]
    by (simp add: setUint8_def one)
  moreover have "writeString ((xs @ [word_of_int (int (of_char c))]) @ replicate m' 0) (Suc off) cs
          = Inr (((xs @ [word_of_int (int (of_char c))]) @ map (\<lambda>c. word_of_int (int (of_char c))) cs)
                 @ replicate (m' - length cs) 0)"
    using Cons.prems m by (intro Cons.IH) auto
  ultimately show ?case
    using m by (simp add: andThen_def)
qed

lemma step_store:
  assumes "length xs = off" "n \<le> m"
  shows "andThen (store_le n (filled xs m) off v) f = f (filled (xs @ le_bytes n v) (m - n))"
  using store_le_fresh [OF assms, of v] by (simp add: filled_def andThen_def)

lemma step_string:
  assumes "length xs = off" "length s \<le> m"
  shows "andThen (writeString (filled xs m) off s) f
           = f (filled (xs @ map (\<lambda>c. word_of_int (int (of_char c))) s) (m - length s))"
  using writeString_fresh [OF assms] by (simp add: filled_def andThen_def)

lemma step_set:
  assumes "length xs = off"
  shows "andThen (Uint8Array_set (filled xs (length src)) off src) f = f (xs @ src)"
  using assms by (simp add: filled_def andThen_def Uint8Array_set_def)

lemma length_wav_header [simp]: "length (wav_header n r) = 44"
  by (simp add: wav_header_def)

lemma pcmToWav_layout:
  "pcmToWav pcm r = Inr \<lparr>blob_bytes = wav_header (length pcm) r @ pcm, blob_type = ''audio/wav''\<rparr>"
proof -
  have start: "replicate (44 + length pcm) 0 = filled [] (44 + length pcm)"
    by (simp add: filled_def)
  show ?thesis
    unfolding pcmToWav_def Let_def start setUint8_def setUint16_def setUint32_def
    by (simp add: step_store step_string step_set wav_header_def del: writeString.simps)
qed


lemma le_bytes_0 [simp]: "le_bytes 0 v = []"
  by (simp add: le_bytes_def)

lemma getUint32_at:
  assumes "b = xs @ le_bytes 4 v @ ys" "length xs = off"
  shows "getUint32 b off = Inr (v mod 2 ^ 32)"
  using assms by (simp add: getUint32_def load_le_def from_le_bytes)

lemma getUint16_at:
  assumes "b = xs @ le_bytes 2 v @ ys" "length xs = off"
  shows "getUint16 b off = Inr (v mod 2 ^ 16)"
  using assms by (simp add: getUint16_def load_le_def from_le_bytes)

lemma pcmToWav_fields:
  "\<exists>wav. pcmToWav pcm r = Inr wav
     \<and> length (blob_bytes wav) = 44 + length pcm
     \<and> getUint32 (blob_bytes wav) 4 = Inr ((36 + int (length pcm)) mod 2 ^ 32)
     \<and> getUint16 (blob_bytes wav) 20 = Inr 1
     \<and> getUint16 (blob_bytes wav) 22 = Inr 1
     \<and> getUint32 (blob_bytes wav) 24 = Inr (r mod 2 ^ 32)
     \<and> getUint32 (blob_bytes wav) 28 = Inr ((r * 2) mod 2 ^ 32)
     \<and> getUint16 (blob_bytes wav) 32 = Inr 2
     \<and> getUint16 (blob_bytes wav) 34 = Inr 16
     \<and> getUint32 (blob_bytes wav) 40 = Inr (int (length pcm) mod 2 ^ 32)
     \<and> drop 44 (blob_bytes wav) = pcm"
proof -
  let ?n = "length pcm"
  let ?h = "wav_header ?n r"
  let ?b = "?h @ pcm"
  have f4: "getUint32 ?b 4 = Inr ((36 + int ?n) mod 2 ^ 32)"
    by (rule getUint32_at [where xs = "take 4 ?h" and ys = "drop 8 ?h @ pcm"])
       (simp_all add: wav_header_def)
  have "getUint16 ?b 20 = Inr (1 mod 2 ^ 16)"
    by (rule getUint16_at [where xs = "take 20 ?h" and ys = "drop 22 ?h @ pcm"])
       (simp_all add: wav_header_def)
  then have f20: "getUint16 ?b 20 = Inr 1" by simp
  have "getUint16 ?b 22 = Inr (1 mod 2 ^ 16)"
    by (rule getUint16_at [where xs = "take 22 ?h" and ys = "drop 24 ?h @ pcm"])
       (simp_all add: wav_header_def)
  then have f22: "getUint16 ?b 22 = Inr 1" by simp
  have f24: "getUint32 ?b 24 = Inr (r mod 2 ^ 32)"
    by (rule getUint32_at [where xs = "take 24 ?h" and ys = "drop 28 ?h @ pcm"])
       (simp_all add: wav_header_def)
  have f28: "getUint32 ?b 28 = Inr ((r * 2) mod 2 ^ 32)"
    by (rule getUint32_at [where xs = "take 28 ?h" and ys = "drop 32 ?h @ pcm"])
       (simp_all add: wav_header_def)
  have "getUint16 ?b 32 = Inr (2 mod 2 ^ 16)"
    by (rule getUint16_at [where xs = "take 32 ?h" and ys = "drop 34 ?h @ pcm"])
       (simp_all add: wav_header_def)
  then have f32: "getUint16 ?b 32 = Inr 2" by simp
  have "getUint16 ?b 34 = Inr (16 mod 2 ^ 16)"
    by (rule getUint16_at [where xs = "take 34 ?h" and ys = "drop 36 ?h @ pcm"])
       (simp_all add: wav_header_def)
  then have f34: "getUint16 ?b 34 = Inr 16" by simp
  have f40: "getUint32 ?b 40 = Inr (int ?n mod 2 ^ 32)"
    by (rule getUint32_at [where xs = "take 40 ?h" and ys = pcm])
       (simp_all add: wav_header_def)
  show ?thesis
    unfolding pcmToWav_layout using f4 f20 f22 f24 f28 f32 f34 f40 by simp
qed

text \<open>
  C1 (as amended). For a payload of \<open>N\<close> bytes with \<open>36 + N < 2^32\<close> and an integer
  sample rate \<open>r\<close> with \<open>0 \<le> r < 2^31\<close>, \<open>pcmToWav\<close> raises nothing and returns
  \<open>44 + N\<close> bytes whose header, read back as little-endian fields, holds the RIFF
  chunk size \<open>36 + N\<close>, audio format 1, channel count 1, sample rate \<open>r\<close>, byte rate
  \<open>r * 2\<close>, block align 2, 16 bits per sample and data size \<open>N\<close>, followed from
  offset 44 by the payload unchanged. (Lemma \<open>pcmToWav_fields\<close> gives the fields for
  all inputs: each 32-bit field holds its value modulo \<open>2^32\<close>.)
\<close>

theorem pcmToWav_header_roundtrip:
  assumes "0 \<le> r" "r < 2 ^ 31" "36 + int (length pcm) < 2 ^ 32"
  shows "\<exists>wav. pcmToWav pcm r = Inr wav
     \<and> length (blob_bytes wav) = 44 + length pcm
     \<and> getUint32 (blob_bytes wav) 4 = Inr (36 + int (length pcm))
     \<and> getUint16 (blob_bytes wav) 20 = Inr 1
     \<and> getUint16 (blob_bytes wav) 22 = Inr 1
     \<and> getUint32 (blob_bytes wav) 24 = Inr r
     \<and> getUint32 (blob_bytes wav) 28 = Inr (r * 2)
     \<and> getUint16 (blob_bytes wav) 32 = Inr 2
     \<and> getUint16 (blob_bytes wav) 34 = Inr 16
     \<and> getUint32 (blob_bytes wav) 40 = Inr (int (length pcm))
     \<and> drop 44 (blob_bytes wav) = pcm"
proof -
  have "(36 + int (length pcm)) mod 2 ^ 32 = 36 + int (length pcm)"
    using assms by simp
  moreover have "r mod 2 ^ 32 = r"
    using assms by simp
  moreover have "(r * 2) mod 2 ^ 32 = r * 2"
    using assms by simp
  moreover have "int (length pcm) mod 2 ^ 32 = int (length pcm)"
    using assms by simp
  ultimately show ?thesis
    using pcmToWav_fields [of pcm r] by simp
qed

theorem pcmToWav_header_roundtrip_witness:
  "(0 :: int) \<le> default_sampleRate \<and> default_sampleRate < 2 ^ 31
   \<and> 36 + int (length [1, 2, 3, 4 :: byte]) < 2 ^ 32
   \<and> (\<exists>wav. pcmToWav [1, 2, 3, 4] default_sampleRate = Inr wav
     \<and> length (blob_bytes wav) = 48
     \<and> getUint32 (blob_bytes wav) 4 = Inr 40
     \<and> getUint16 (blob_bytes wav) 20 = Inr 1
     \<and> getUint16 (blob_bytes wav) 22 = Inr 1
     \<and> getUint32 (blob_bytes wav) 24 = Inr 24000
     \<and> getUint32 (blob_bytes wav) 28 = Inr 48000
     \<and> getUint16 (blob_bytes wav) 32 = Inr 2
     \<and> getUint16 (blob_bytes wav) 34 = Inr 16
     \<and> getUint32 (blob_bytes wav) 40 = Inr 4
     \<and> drop 44 (blob_bytes wav) = [1, 2, 3, 4])"
  using pcmToWav_header_roundtrip [of default_sampleRate "[1, 2, 3, 4]"]
  by (simp add: default_sampleRate_def)

text \<open>
  The claim as stated, for every sample rate, fails where a field overflows its 32 bits:
  at the sample rate \<open>2^31\<close> and an empty payload the byte-rate field (offset 28) reads
  0, not \<open>2^31 * 2\<close>.
\<close>

theorem pcmToWav_byte_rate_wraps: "pcmToWav [] 2147483648
     = Inr \<lparr>blob_bytes = [82, 73, 70, 70, 36, 0, 0, 0, 87, 65, 86, 69, 102, 109, 116, 32,
                          16, 0, 0, 0, 1, 0, 1, 0, 0, 0, 0, 128, 0, 0, 0, 0, 2, 0, 16, 0,
                          100, 97, 116, 97, 0, 0, 0, 0],
            blob_type = ''audio/wav''\<rparr>
   \<and> getUint32 [82, 73, 70, 70, 36, 0, 0, 0, 87, 65, 86, 69, 102, 109, 116, 32,
                 16, 0, 0, 0, 1, 0, 1, 0, 0, 0, 0, 128, 0, 0, 0, 0, 2, 0, 16, 0,
                 100, 97, 116, 97, 0, 0, 0, 0] 28 = Inr 0
   \<and> (0 :: int) \<noteq> 2147483648 * 2"
proof -
  have le4: "le_bytes 4 v = [word_of_int v, word_of_int (v div 256), word_of_int (v div 256 div 256),
                             word_of_int (v div 256 div 256 div 256)]" for v
    by (simp add: eval_nat_numeral le_bytes_Suc)
  have le2: "le_bytes 2 v = [word_of_int v, word_of_int (v div 256)]" for v
    by (simp add: eval_nat_numeral le_bytes_Suc)
  have "pcmToWav [] 2147483648
     = Inr \<lparr>blob_bytes = [82, 73, 70, 70, 36, 0, 0, 0, 87, 65, 86, 69, 102, 109, 116, 32,
                          16, 0, 0, 0, 1, 0, 1, 0, 0, 0, 0, 128, 0, 0, 0, 0, 2, 0, 16, 0,
                          100, 97, 116, 97, 0, 0, 0, 0],
            blob_type = ''audio/wav''\<rparr>"
    by (simp add: pcmToWav_layout wav_header_def le4 le2)
  moreover have "getUint32 [82, 73, 70, 70, 36, 0, 0, 0, 87, 65, 86, 69, 102, 109, 116, 32,
                 16, 0, 0, 0, 1, 0, 1, 0, 0, 0, 0, 128, 0, 0, 0, 0, 2, 0, 16, 0,
                 100, 97, 116, 97, 0, 0, 0, 0] 28 = Inr 0"
    by (simp add: getUint32_def load_le_def from_le_def)
  ultimately show ?thesis by simp
qed

section \<open>Properties of the rounding to binary64\<close>

lemma bitlen_bounds:
  "0 < n \<Longrightarrow> 1 \<le> bitlen n \<and> 2 ^ nat (bitlen n - 1) \<le> n \<and> n < 2 ^ nat (bitlen n)"
proof (induction n rule: bitlen.induct)
  case (1 n)
  show ?case
  proof (cases "n = 1")
    case True
    have "bitlen 1 = 1"
      by (simp add: bitlen.simps [of 1] bitlen.simps [of 0])
    with True show ?thesis by simp
  next
    case False
    with "1.prems" have pos: "0 < n div 2" by simp
    have ih: "1 \<le> bitlen (n div 2)" "2 ^ nat (bitlen (n div 2) - 1) \<le> n div 2"
      "n div 2 < 2 ^ nat (bitlen (n div 2))"
      using "1.IH" "1.prems" pos by auto
    have b: "bitlen n = 1 + bitlen (n div 2)"
      using "1.prems" by (simp add: bitlen.simps [of n])
    have e: "nat (bitlen n - 1) = Suc (nat (bitlen (n div 2) - 1))"
      "nat (bitlen n) = Suc (nat (bitlen (n div 2)))"
      using ih(1) b by auto
    have "2 * 2 ^ nat (bitlen (n div 2) - 1) \<le> n"
      using ih(2) by linarith
    moreover have "n < 2 * 2 ^ nat (bitlen (n div 2))"
      using ih(3) by linarith
    ultimately show ?thesis
      using b ih(1) e by simp
  qed
qed

lemma bitlen_powi:
  assumes "0 < n"
  shows "(2::rat) powi (bitlen n - 1) \<le> of_int n" "(of_int n :: rat) < 2 powi (bitlen n)"
proof -
  from bitlen_bounds [OF assms]
  have b: "1 \<le> bitlen n" "2 ^ nat (bitlen n - 1) \<le> n" "n < 2 ^ nat (bitlen n)"
    by auto
  have "(2::rat) powi (bitlen n - 1) = of_int (2 ^ nat (bitlen n - 1))"
    using b(1) by (simp add: power_int_def)
  also have "\<dots> \<le> of_int n"
    using b(2) by (simp only: of_int_le_iff)
  finally show "(2::rat) powi (bitlen n - 1) \<le> of_int n" .
  have "(of_int n :: rat) < of_int (2 ^ nat (bitlen n))"
    using b(3) by (simp only: of_int_less_iff)
  also have "\<dots> = 2 powi (bitlen n)"
    using b(1) by (simp add: power_int_def)
  finally show "(of_int n :: rat) < 2 powi (bitlen n)" .
qed

lemma ilog2_bounds:
  assumes "0 < x"
  shows "2 powi (ilog2 x) \<le> x" "x < 2 powi (ilog2 x + 1)"
proof -
  obtain p q where pq: "quotient_of x = (p, q)"
    by (cases "quotient_of x")
  have q: "0 < q" using pq by (rule quotient_of_denom_pos)
  have x: "x = of_int p / of_int q" using pq by (rule quotient_of_div)
  have p: "0 < p"
    using assms q unfolding x by (simp add: zero_less_divide_iff)
  let ?e = "bitlen p - bitlen q"
  have lo: "(2::rat) powi (?e - 1) < x"
  proof -
    have "(2::rat) powi (?e - 1) = 2 powi (bitlen p - 1) / 2 powi (bitlen q)"
      by (simp add: power_int_diff)
    also have "\<dots> < of_int p / of_int q"
      using bitlen_powi [OF p] bitlen_powi [OF q] p q
      by (intro frac_less2) auto
    finally show ?thesis by (simp add: x)
  qed
  have hi: "x < (2::rat) powi (?e + 1)"
  proof -
    have "of_int p / of_int q < (2::rat) powi (bitlen p) / 2 powi (bitlen q - 1)"
      using bitlen_powi [OF p] bitlen_powi [OF q] p q
      by (intro frac_less) auto
    also have "\<dots> = 2 powi (?e + 1)"
      by (simp add: power_int_diff power_int_add)
    finally show ?thesis by (simp add: x)
  qed
  have il: "ilog2 x = (if 2 powi ?e \<le> x then ?e else ?e - 1)"
    by (simp add: ilog2_def pq Let_def)
  show "2 powi (ilog2 x) \<le> x"
    using lo by (simp add: il)
  show "x < 2 powi (ilog2 x + 1)"
    using hi by (auto simp: il not_le)
qed

lemma rne_error: "\<bar>of_int (rne y) - y\<bar> \<le> 1 / 2"
proof -
  let ?f = "\<lfloor>y\<rfloor>"
  have b: "of_int ?f \<le> y" "y < of_int ?f + 1"
    by linarith+
  consider "y - of_int ?f < 1 / 2" | "1 / 2 < y - of_int ?f" | "y - of_int ?f = 1 / 2"
    by linarith
  then show ?thesis
  proof cases
    case 1
    then have "rne y = ?f" by (simp add: rne_def Let_def)
    with 1 b show ?thesis by simp
  next
    case 2
    then have "rne y = ?f + 1" by (simp add: rne_def Let_def)
    with 2 b show ?thesis by simp
  next
    case 3
    then have "rne y = ?f \<or> rne y = ?f + 1" by (simp add: rne_def Let_def)
    with 3 b show ?thesis by auto
  qed
qed

lemma fl_error_pos:
  assumes "2 powi (- 1022) \<le> x"
  shows "\<bar>fl x - x\<bar> \<le> x / 2 ^ 53"
proof -
  have pos: "0 < x"
    using assms zero_less_power_int [of "2::rat" "- 1022"] by linarith
  let ?e = "ilog2 x"
  let ?u = "(2::rat) powi (?e - 52)"
  have e: "- 1022 \<le> ?e"
  proof (rule ccontr)
    assume "\<not> - 1022 \<le> ?e"
    then have "?e + 1 \<le> - 1022" by simp
    then have "(2::rat) powi (?e + 1) \<le> 2 powi (- 1022)"
      by (intro power_int_increasing) auto
    with ilog2_bounds(2) [OF pos] assms show False by linarith
  qed
  have u: "0 < ?u" by simp
  have flx: "fl x = of_int (rne (x / ?u)) * ?u"
    using pos e by (simp add: fl_def Let_def max_def)
  have "\<bar>fl x - x\<bar> = \<bar>of_int (rne (x / ?u)) - x / ?u\<bar> * ?u"
  proof -
    have "fl x - x = (of_int (rne (x / ?u)) - x / ?u) * ?u"
      using u by (simp add: flx field_simps)
    then show ?thesis
      using u by (simp add: abs_mult)
  qed
  also have "\<dots> \<le> (1 / 2) * ?u"
    using rne_error [of "x / ?u"] u by (intro mult_right_mono) auto
  also have "\<dots> = 2 powi ?e / 2 ^ 53"
  proof -
    have "(2::rat) powi (?e - 52) = 2 powi ?e / 2 powi 52"
      by (rule power_int_diff) simp
    then show ?thesis by simp
  qed
  also have "\<dots> \<le> x / 2 ^ 53"
    using ilog2_bounds(1) [OF pos] by (intro divide_right_mono) auto
  finally show ?thesis .
qed

lemma fl_zero [simp]: "fl 0 = 0"
  by (simp add: fl_def)

lemma scaled_close:
  fixes w m :: nat
  assumes wm: "w \<le> m" and m1: "1024 < m" and m2: "m < 2 ^ 32"
  shows "\<bar>fmul (of_nat w) (fdiv 1024 (of_nat m)) - 1024 * of_nat w / of_nat m\<bar> \<le> 1 / 2 ^ 41"
proof (cases "w = 0")
  case True
  then show ?thesis by (simp add: fmul_def)
next
  case False
  define W :: rat where "W = of_nat w"
  define M :: rat where "M = of_nat m"
  define c where "c = 1024 / M"
  define s where "s = fl c"
  define t where "t = W * c"
  have Mpos: "0 < M" using m1 by (simp add: M_def)
  have Mlt: "M < 2 ^ 32"
  proof -
    have "(of_nat m :: rat) < of_nat (2 ^ 32)"
      using m2 by (simp only: of_nat_less_iff)
    then show ?thesis by (simp add: M_def)
  qed
  have W1: "1 \<le> W" using False by (simp add: W_def)
  have WM: "W \<le> M" using wm by (simp add: W_def M_def)
  have c_lo: "1 / 2 ^ 22 < c"
    using Mpos Mlt by (simp add: c_def field_simps)
  have c_pos: "0 < c" using Mpos by (simp add: c_def)
  have tiny: "(2::rat) powi (- 1022) \<le> 1 / 2 ^ 23"
  proof -
    have "(2::rat) powi (- 1022) \<le> 2 powi (- 23)"
      by (intro power_int_increasing) auto
    also have "\<dots> = 1 / 2 ^ 23"
      by (simp add: power_int_minus_divide)
    finally show ?thesis .
  qed
  have c_norm: "2 powi (- 1022) \<le> c"
  proof -
    have "(1::rat) / 2 ^ 23 \<le> 1 / 2 ^ 22" by simp
    with tiny have "(2::rat) powi (- 1022) \<le> 1 / 2 ^ 22" by (rule order_trans)
    with c_lo show ?thesis by (simp only: order_trans less_imp_le)
  qed
  have s_err: "\<bar>s - c\<bar> \<le> c / 2 ^ 53"
    unfolding s_def using c_norm by (rule fl_error_pos)
  have t_le: "t \<le> 1024"
  proof -
    have "t = 1024 * (W / M)" by (simp add: t_def c_def)
    moreover have "W / M \<le> 1" using WM Mpos by simp
    ultimately show ?thesis by simp
  qed
  have t_pos: "0 < t" using W1 c_pos by (simp add: t_def)
  have ws_err: "\<bar>W * s - t\<bar> \<le> t / 2 ^ 53"
  proof -
    have "W * s - t = W * (s - c)"
      by (simp add: t_def right_diff_distrib)
    then have "\<bar>W * s - t\<bar> = W * \<bar>s - c\<bar>"
      using W1 by (simp add: abs_mult)
    also have "\<dots> \<le> W * (c / 2 ^ 53)"
      using s_err W1 by (intro mult_left_mono) auto
    finally show ?thesis by (simp add: t_def)
  qed
  have s_lo: "c / 2 \<le> s"
  proof -
    have "c / 2 ^ 53 \<le> c / 2"
      using c_pos by (intro divide_left_mono) auto
    with s_err show ?thesis by linarith
  qed
  have ws_lo: "2 powi (- 1022) \<le> W * s"
  proof -
    have "1 / 2 ^ 23 \<le> c / 2" using c_lo by simp
    also have "\<dots> \<le> 1 * s" using s_lo by simp
    also have "\<dots> \<le> W * s"
      using W1 s_lo c_pos by (intro mult_right_mono) auto
    finally show ?thesis using tiny by (rule order_trans [rotated])
  qed
  have p_err: "\<bar>fl (W * s) - W * s\<bar> \<le> (W * s) / 2 ^ 53"
    using ws_lo by (rule fl_error_pos)
  have ws_hi: "W * s \<le> 2 * t"
  proof -
    have "t / 2 ^ 53 \<le> t" using t_pos by (simp add: field_simps)
    with ws_err show ?thesis by linarith
  qed
  have "\<bar>fl (W * s) - t\<bar> \<le> \<bar>fl (W * s) - W * s\<bar> + \<bar>W * s - t\<bar>"
    by simp
  also have "\<dots> \<le> (2 * t) / 2 ^ 53 + t / 2 ^ 53"
  proof -
    have "(W * s) / 2 ^ 53 \<le> (2 * t) / 2 ^ 53"
      using ws_hi by (intro divide_right_mono) auto
    with p_err ws_err show ?thesis by linarith
  qed
  also have "\<dots> = 3 * t / 2 ^ 53" by simp
  also have "\<dots> \<le> 3 * 1024 / 2 ^ 53"
    using t_le by (intro divide_right_mono) auto
  also have "\<dots> \<le> 1 / 2 ^ 41" by simp
  finally have "\<bar>fl (W * s) - t\<bar> \<le> 1 / 2 ^ 41" .
  moreover have "fmul (of_nat w) (fdiv 1024 (of_nat m)) = fl (W * s)"
    by (simp add: fmul_def fdiv_def W_def s_def c_def M_def)
  moreover have "1024 * of_nat w / of_nat m = t"
    by (simp add: t_def c_def W_def M_def)
  ultimately show ?thesis by simp
qed

lemma scaled_round:
  fixes w m :: nat
  assumes wm: "w \<le> m" and m1: "1024 < m" and m2: "m < 2 ^ 32"
  defines "r \<equiv> Math_round (fmul (of_nat w) (fdiv 1024 (of_nat m)))"
  shows "0 \<le> r" and "r \<le> 1024"
    and "\<bar>of_int r - 1024 * of_nat w / of_nat m\<bar> < (1::rat)"
    and "w = m \<Longrightarrow> r = 1024"
    and "(2048 * w + m) mod (2 * m) \<noteq> 0 \<Longrightarrow> r = Math_round (1024 * of_nat w / of_nat m)"
    and "r = Math_round (1024 * of_nat w / of_nat m) \<or> r = Math_round (1024 * of_nat w / of_nat m) - 1"
proof -
  define p where "p = fmul (of_nat w) (fdiv 1024 (of_nat m))"
  define t :: rat where "t = 1024 * of_nat w / of_nat m"
  have "\<bar>p - t\<bar> \<le> 1 / 2 ^ 41"
    unfolding p_def t_def using wm m1 m2 by (rule scaled_close)
  then have close: "\<bar>p - t\<bar> \<le> 1 / 2199023255552"
    by simp
  have Mpos: "0 < (of_nat m :: rat)" using m1 by simp
  have t0: "0 \<le> t" by (simp add: t_def)
  have t1: "t \<le> 1024"
  proof -
    have "t = 1024 * (of_nat w / of_nat m)" by (simp add: t_def)
    moreover have "(of_nat w :: rat) / of_nat m \<le> 1" using wm Mpos by simp
    ultimately show ?thesis by simp
  qed
  have r: "r = \<lfloor>p + 1 / 2\<rfloor>"
    by (simp add: r_def p_def Math_round_def)
  have fl1: "of_int r \<le> p + 1 / 2" and fl2: "p + 1 / 2 < of_int r + 1"
    unfolding r by linarith+
  show "0 \<le> r"
  proof -
    have "0 \<le> p + 1 / 2" using close t0 by linarith
    then show ?thesis unfolding r by simp
  qed
  show "r \<le> 1024"
  proof -
    have "p + 1 / 2 < 1025" using close t1 by linarith
    then have "p + 1 / 2 < of_int 1025" by simp
    then have "r < 1025" unfolding r by (simp only: floor_less_iff)
    then show ?thesis by simp
  qed
  show "\<bar>of_int r - 1024 * of_nat w / of_nat m\<bar> < (1::rat)"
    using fl1 fl2 close unfolding t_def [symmetric] by linarith
  show "r = 1024" if "w = m"
  proof -
    have "t = 1024" using that Mpos by (simp add: t_def)
    then have "1024 \<le> p + 1 / 2" "p + 1 / 2 < 1024 + 1"
      using close by linarith+
    then have "of_int 1024 \<le> p + 1 / 2" "p + 1 / 2 < of_int 1024 + 1"
      by simp_all
    then show ?thesis unfolding r by (rule floor_unique)
  qed
  show exact: "r = Math_round (1024 * of_nat w / of_nat m)" if tie: "(2048 * w + m) mod (2 * m) \<noteq> 0"
  proof -
    define N :: int where "N = int (2048 * w + m)"
    define D :: int where "D = int (2 * m)"
    define R where "R = N div D"
    define k where "k = N mod D"
    have Dpos: "0 < D" using m1 by (simp add: D_def)
    have Dlt: "D < 2 ^ 33" using m2 by (simp add: D_def)
    have k0: "k \<noteq> 0"
      using tie unfolding k_def N_def D_def by (simp add: zmod_int [symmetric] del: of_nat_mod of_nat_add of_nat_mult)
    have "0 \<le> k" "k < D"
      unfolding k_def using Dpos by (rule pos_mod_sign, rule pos_mod_bound)
    with k0 have k1: "1 \<le> k" "k \<le> D - 1"
      by linarith+
    have "N = D * R + k"
      by (simp add: R_def k_def)
    then have Nrat: "(of_int N :: rat) = of_int D * of_int R + of_int k"
      by (metis of_int_add of_int_mult)
    have Drat: "0 < (of_int D :: rat)" "(of_int D :: rat) < 2 ^ 33"
    proof -
      show "0 < (of_int D :: rat)" using Dpos by simp
      have "(of_int D :: rat) < of_int (2 ^ 33)" using Dlt by (simp only: of_int_less_iff)
      then show "(of_int D :: rat) < 2 ^ 33" by simp
    qed
    have half: "t + 1 / 2 = of_int N / of_int D"
      using Mpos by (simp add: t_def N_def D_def field_simps)
    have split: "t + 1 / 2 = of_int R + of_int k / of_int D"
      unfolding half Nrat using Drat(1) by (simp add: field_simps)
    have "1 / 2 ^ 33 < 1 / (of_int D :: rat)"
      using Drat by (simp add: field_simps)
    then have inv: "1 / 8589934592 < 1 / (of_int D :: rat)"
      by simp
    have lo: "1 / of_int D \<le> of_int k / (of_int D :: rat)"
      using k1(1) Drat(1) by (intro divide_right_mono) auto
    have hi: "of_int k / (of_int D :: rat) \<le> 1 - 1 / of_int D"
    proof -
      have "(of_int k :: rat) \<le> of_int (D - 1)"
        using k1(2) by (simp only: of_int_le_iff)
      then have "of_int k / (of_int D :: rat) \<le> of_int (D - 1) / of_int D"
        using Drat(1) by (intro divide_right_mono) auto
      also have "\<dots> = 1 - 1 / of_int D"
        using Drat(1) by (simp add: field_simps)
      finally show ?thesis .
    qed
    have "of_int R \<le> p + 1 / 2" "p + 1 / 2 < of_int R + 1"
      using split lo hi inv close by linarith+
    then have "r = R" unfolding r by (rule floor_unique)
    moreover have "of_int R \<le> t + 1 / 2" "t + 1 / 2 < of_int R + 1"
      using split lo hi inv by linarith+
    then have "\<lfloor>t + 1 / 2\<rfloor> = R" by (rule floor_unique)
    ultimately show ?thesis
      by (simp add: Math_round_def t_def)
  qed
  show "r = Math_round (1024 * of_nat w / of_nat m) \<or> r = Math_round (1024 * of_nat w / of_nat m) - 1"
  proof (cases "(2048 * w + m) mod (2 * m) = 0")
    case False
    then have "r = Math_round (1024 * of_nat w / of_nat m)" by (rule exact)
    then show ?thesis by simp
  next
    case True
    define R :: int where "R = int ((2048 * w + m) div (2 * m))"
    have "2048 * w + m = 2 * m * ((2048 * w + m) div (2 * m))"
      using True by (metis add.right_neutral mult_div_mod_eq)
    then have "(of_nat (2048 * w + m) :: rat) = of_nat (2 * m * ((2048 * w + m) div (2 * m)))"
      by simp
    then have "2048 * (of_nat w :: rat) + of_nat m = 2 * of_nat m * of_int R"
      by (simp add: R_def)
    then have half: "t + 1 / 2 = of_int R"
      using Mpos by (simp add: t_def field_simps)
    then have "\<lfloor>t + 1 / 2\<rfloor> = R" by simp
    then have MR: "Math_round (1024 * of_nat w / of_nat m) = R"
      by (simp add: Math_round_def t_def)
    have "of_int r < (of_int R :: rat) + 1"
      using fl1 half close by linarith
    then have "of_int r < (of_int (R + 1) :: rat)" by simp
    then have up: "r < R + 1" by (simp only: of_int_less_iff)
    have "(of_int R :: rat) - 1 < of_int r + 1"
      using fl2 half close by linarith
    then have "(of_int (R - 1) :: rat) < of_int (r + 1)" by simp
    then have "R - 1 < r + 1" by (simp only: of_int_less_iff)
    with up have "r = R \<or> r = R - 1" by linarith
    then show ?thesis
      by (simp only: MR)
  qed
qed

lemma resizeDims_small:
  assumes "w \<le> 1024" "h \<le> 1024"
  shows "resizeDims w h = (int w, int h)"
proof -
  have "\<not> (of_nat w :: rat) > 1024" "\<not> (of_nat h :: rat) > 1024"
    using assms by (simp_all add: not_less)
  then show ?thesis
    by (simp add: resizeDims_def maxDimension_def Let_def)
qed

lemma resizeDims_large:
  assumes "1024 < max w h"
  shows "resizeDims w h =
           (Math_round (fmul (of_nat w) (fdiv 1024 (of_nat (max w h)))),
            Math_round (fmul (of_nat h) (fdiv 1024 (of_nat (max w h)))))"
proof -
  have "(of_nat w :: rat) > 1024 \<or> (of_nat h :: rat) > 1024"
    using assms by (auto simp: max_def split: if_splits)
  moreover have "max (of_nat w :: rat) (of_nat h) = of_nat (max w h)"
    by (simp add: max_def)
  ultimately show ?thesis
    by (simp add: resizeDims_def maxDimension_def Let_def)
qed

lemma fl_minus: "fl (- x) = - fl x"
  by (simp add: fl_def Let_def)

lemma fl_error:
  assumes "2 powi (- 1022) \<le> \<bar>x\<bar>"
  shows "\<bar>fl x - x\<bar> \<le> \<bar>x\<bar> / 2 ^ 53"
proof (cases "0 \<le> x")
  case True
  with assms fl_error_pos [of x] show ?thesis by simp
next
  case False
  then have "2 powi (- 1022) \<le> - x" using assms by simp
  then have "\<bar>fl (- x) - (- x)\<bar> \<le> (- x) / 2 ^ 53" by (rule fl_error_pos)
  moreover have "\<bar>fl (- x) - (- x)\<bar> = \<bar>fl x - x\<bar>"
    unfolding fl_minus by (simp add: abs_minus_commute)
  ultimately show ?thesis using False by simp
qed

lemma radius_close:
  fixes n :: int
  assumes "0 \<le> n" "n \<le> 1024"
  shows "\<bar>fmul (of_int n) literal_0_05 - of_int n / 20\<bar> \<le> 1 / 2 ^ 45"
proof (cases "n = 0")
  case True
  then show ?thesis by (simp add: fmul_def)
next
  case False
  define N :: rat where "N = of_int n"
  define a where "a = fl (1 / 20)"
  have N1: "1 \<le> N" using assms False by (simp add: N_def)
  have N2: "N \<le> 1024"
  proof -
    have "(of_int n :: rat) \<le> of_int 1024" using assms by (simp only: of_int_le_iff)
    then show ?thesis by (simp add: N_def)
  qed
  have tiny: "(2::rat) powi (- 1022) \<le> 1 / 40"
  proof -
    have "(2::rat) powi (- 1022) \<le> 2 powi (- 6)"
      by (intro power_int_increasing) auto
    also have "\<dots> = 1 / 64" by (simp add: power_int_minus_divide)
    also have "\<dots> \<le> 1 / 40" by simp
    finally show ?thesis .
  qed
  have "(2::rat) powi (- 1022) \<le> 1 / 20"
    using tiny by (rule order_trans) simp
  then have "\<bar>a - 1 / 20\<bar> \<le> (1 / 20) / 2 ^ 53"
    unfolding a_def by (rule fl_error_pos)
  then have a_err: "\<bar>a - 1 / 20\<bar> \<le> 1 / 180143985094819840"
    by simp
  have a_lo: "1 / 40 \<le> a" and a_hi: "a \<le> 1 / 10"
    using a_err by linarith+
  have Na_err: "\<bar>N * a - N / 20\<bar> \<le> 1024 / 180143985094819840"
  proof -
    have "N * a - N / 20 = N * (a - 1 / 20)"
      by (simp add: right_diff_distrib)
    then have "\<bar>N * a - N / 20\<bar> = N * \<bar>a - 1 / 20\<bar>"
      using N1 by (simp add: abs_mult)
    also have "\<dots> \<le> 1024 * (1 / 180143985094819840)"
      using a_err N1 N2 by (intro mult_mono) auto
    finally show ?thesis by simp
  qed
  have Na_lo: "2 powi (- 1022) \<le> N * a"
  proof -
    have "1 / 40 \<le> 1 * a" using a_lo by simp
    also have "\<dots> \<le> N * a" using N1 a_lo by (intro mult_right_mono) auto
    finally show ?thesis using tiny by (rule order_trans [rotated])
  qed
  have Na_hi: "N * a \<le> 1024 * (1 / 10)"
    using N1 N2 a_lo a_hi by (intro mult_mono) auto
  have "\<bar>fl (N * a) - N * a\<bar> \<le> (N * a) / 2 ^ 53"
    using Na_lo by (rule fl_error_pos)
  also have "\<dots> \<le> (1024 * (1 / 10)) / 2 ^ 53"
    using Na_hi by (intro divide_right_mono) auto
  finally have "\<bar>fl (N * a) - N * a\<bar> \<le> 1024 / 90071992547409920"
    by simp
  with Na_err have "\<bar>fl (N * a) - N / 20\<bar> \<le> 1 / 35184372088832"
    by linarith
  moreover have "fmul (of_int n) literal_0_05 = fl (N * a)"
    by (simp add: fmul_def literal_0_05_def N_def a_def)
  ultimately show ?thesis by (simp add: N_def)
qed

section \<open>Properties of the resize step\<close>

text \<open>
  C2 (as amended). For a bitmap whose width and height are below \<open>2^32\<close> (they are
  unsigned 32-bit integers) and whose longer edge \<open>m\<close> exceeds 1024, the canvas gets
  \<open>Math.round(width * scale)\<close> and \<open>Math.round(height * scale)\<close> with
  \<open>scale = 1024 / m\<close>, both computed in binary64: the longer output edge is exactly
  1024, both edges are between 0 and 1024, each is less than one pixel away from the
  exactly scaled edge \<open>edge * 1024 / m\<close>, and each equals the exactly scaled edge
  rounded half up, or that minus one; it is the former whenever the exactly scaled edge
  is not halfway between two integers. A bitmap with both edges at most 1024 keeps its
  dimensions. \<open>removeObjectAtPoint\<close> resizes by the same statements.
\<close>

theorem resizeDims_within_one_pixel:
  assumes "w < 2 ^ 32" "h < 2 ^ 32"
  shows "(1024 < max w h \<longrightarrow>
           (\<exists>w' h'. resizeDims w h = (w', h')
              \<and> max w' h' = 1024 \<and> 0 \<le> w' \<and> 0 \<le> h'
              \<and> \<bar>of_int w' - 1024 * of_nat w / of_nat (max w h)\<bar> < (1::rat)
              \<and> \<bar>of_int h' - 1024 * of_nat h / of_nat (max w h)\<bar> < (1::rat)
              \<and> (w' = Math_round (1024 * of_nat w / of_nat (max w h))
                  \<or> w' = Math_round (1024 * of_nat w / of_nat (max w h)) - 1)
              \<and> (h' = Math_round (1024 * of_nat h / of_nat (max w h))
                  \<or> h' = Math_round (1024 * of_nat h / of_nat (max w h)) - 1)
              \<and> ((2048 * w + max w h) mod (2 * max w h) \<noteq> 0
                    \<longrightarrow> w' = Math_round (1024 * of_nat w / of_nat (max w h)))
              \<and> ((2048 * h + max w h) mod (2 * max w h) \<noteq> 0
                    \<longrightarrow> h' = Math_round (1024 * of_nat h / of_nat (max w h)))))
       \<and> (w \<le> 1024 \<and> h \<le> 1024 \<longrightarrow> resizeDims w h = (int w, int h))"
proof (intro conjI impI)
  assume big: "1024 < max w h"
  define m where "m = max w h"
  have m: "1024 < m" "m < 2 ^ 32" "w \<le> m" "h \<le> m"
    using big assms by (auto simp: m_def)
  define w' where "w' = Math_round (fmul (of_nat w) (fdiv 1024 (of_nat m)))"
  define h' where "h' = Math_round (fmul (of_nat h) (fdiv 1024 (of_nat m)))"
  note W = scaled_round [OF m(3) m(1) m(2), folded w'_def]
  note H = scaled_round [OF m(4) m(1) m(2), folded h'_def]
  have eq: "resizeDims w h = (w', h')"
    using resizeDims_large [OF big] by (simp add: w'_def h'_def m_def)
  have "w = m \<or> h = m" by (auto simp: m_def max_def)
  then have "max w' h' = 1024"
    using W(2,4) H(2,4) by (auto simp: max_def)
  with eq W H
  show "\<exists>w' h'. resizeDims w h = (w', h')
              \<and> max w' h' = 1024 \<and> 0 \<le> w' \<and> 0 \<le> h'
              \<and> \<bar>of_int w' - 1024 * of_nat w / of_nat (max w h)\<bar> < (1::rat)
              \<and> \<bar>of_int h' - 1024 * of_nat h / of_nat (max w h)\<bar> < (1::rat)
              \<and> (w' = Math_round (1024 * of_nat w / of_nat (max w h))
                  \<or> w' = Math_round (1024 * of_nat w / of_nat (max w h)) - 1)
              \<and> (h' = Math_round (1024 * of_nat h / of_nat (max w h))
                  \<or> h' = Math_round (1024 * of_nat h / of_nat (max w h)) - 1)
              \<and> ((2048 * w + max w h) mod (2 * max w h) \<noteq> 0
                    \<longrightarrow> w' = Math_round (1024 * of_nat w / of_nat (max w h)))
              \<and> ((2048 * h + max w h) mod (2 * max w h) \<noteq> 0
                    \<longrightarrow> h' = Math_round (1024 * of_nat h / of_nat (max w h)))"
    unfolding m_def [symmetric] by blast
next
  assume "w \<le> 1024 \<and> h \<le> 1024"
  then show "resizeDims w h = (int w, int h)"
    by (simp add: resizeDims_small)
qed

theorem resizeDims_within_one_pixel_witness:
  "(2000::nat) < 2 ^ 32 \<and> (1000::nat) < 2 ^ 32 \<and> 1024 < max (2000::nat) 1000
   \<and> resizeDims 2000 1000 = (1024, 512)
   \<and> (2048 * 1000 + max (2000::nat) 1000) mod (2 * max 2000 1000) \<noteq> 0
   \<and> Math_round (1024 * of_nat 1000 / of_nat (max 2000 1000)) = 512
   \<and> (800::nat) < 2 ^ 32 \<and> (600::nat) < 2 ^ 32 \<and> (800::nat) \<le> 1024 \<and> (600::nat) \<le> 1024
   \<and> resizeDims 800 600 = (800, 600)"
proof -
  have w: "Math_round (fmul 2000 (fdiv 1024 2000)) = 1024" by code_simp
  have h: "Math_round (fmul 1000 (fdiv 1024 2000)) = 512" by code_simp
  have big: "resizeDims 2000 1000 = (1024, 512)"
    using w h by (simp add: resizeDims_def maxDimension_def Let_def)
  have "Math_round 512 = 512" by code_simp
  then have exact: "Math_round (1024 * of_nat 1000 / of_nat (max 2000 1000)) = 512"
    by simp
  have small: "resizeDims 800 600 = (800, 600)"
    using resizeDims_within_one_pixel [of 800 600] by simp
  from resizeDims_within_one_pixel [of 2000 1000] big exact small show ?thesis
    by simp
qed

text \<open>
  The claim as stated gives the output width as the exactly scaled width rounded. For
  a bitmap 49 wide and 100352 high the exactly scaled width is \<open>49 * 1024 / 100352 = 1/2\<close>,
  which rounds to 1, also when the quotient is computed in binary64 in the order the
  claim writes it; the program multiplies 49 by the rounded quotient \<open>1024 / 100352\<close>,
  gets a product just below one half, and gives the canvas the width 0.
\<close>

theorem resizeDims_tie_rounds_down:
  "resizeDims 49 100352 = (0, 1024)
   \<and> Math_round (49 * 1024 / 100352) = 1
   \<and> Math_round (fdiv (fmul 49 1024) 100352) = 1"
proof -
  have "Math_round (fmul 49 (fdiv 1024 100352)) = 0" by code_simp
  moreover have "Math_round (fmul 100352 (fdiv 1024 100352)) = 1024" by code_simp
  ultimately have "resizeDims 49 100352 = (0, 1024)"
    by (simp add: resizeDims_def maxDimension_def Let_def)
  moreover have "Math_round (49 * 1024 / 100352) = 1" by code_simp
  moreover have "Math_round (fdiv (fmul 49 1024) 100352) = 1" by code_simp
  ultimately show ?thesis by simp
qed

section \<open>Properties of the point marker\<close>

lemma rne_of_int: "rne (of_int n) = n"
  by (simp add: rne_def Let_def)

lemma ilog2_powi: "ilog2 (2 powi k) = k"
proof -
  have pos: "(0::rat) < 2 powi k" by simp
  from ilog2_bounds [OF pos]
  have a: "(2::rat) powi ilog2 (2 powi k) \<le> 2 powi k"
   and b: "(2::rat) powi k < 2 powi (ilog2 (2 powi k) + 1)" .
  have "ilog2 (2 powi k) \<le> k"
  proof (rule ccontr)
    assume "\<not> ilog2 (2 powi k) \<le> k"
    then have "k + 1 \<le> ilog2 (2 powi k)" by simp
    then have "(2::rat) powi (k + 1) \<le> 2 powi ilog2 (2 powi k)"
      by (intro power_int_increasing) auto
    moreover have "(2::rat) powi (k + 1) = 2 * 2 powi k"
      by (simp add: power_int_add_1')
    ultimately show False using a pos by linarith
  qed
  moreover have "k < ilog2 (2 powi k) + 1"
  proof (rule ccontr)
    assume "\<not> k < ilog2 (2 powi k) + 1"
    then have "ilog2 (2 powi k) + 1 \<le> k" by simp
    then have "(2::rat) powi (ilog2 (2 powi k) + 1) \<le> 2 powi k"
      by (intro power_int_increasing) auto
    with b show False by linarith
  qed
  ultimately show ?thesis by linarith
qed

lemma fl_powi:
  assumes "- 1022 \<le> k"
  shows "fl (2 powi k) = 2 powi k"
proof -
  have "(2::rat) powi k / 2 powi (k - 52) = 2 powi 52"
    by (simp add: power_int_diff)
  also have "\<dots> = of_int (2 ^ 52)"
    by simp
  finally have q: "(2::rat) powi k / 2 powi (k - 52) = of_int (2 ^ 52)" .
  have "rne ((2::rat) powi k / 2 powi (k - 52)) = 2 ^ 52"
    unfolding q by (rule rne_of_int)
  moreover have "(of_int (2 ^ 52) :: rat) * 2 powi (k - 52) = 2 powi k"
    using q by (simp add: field_simps)
  ultimately show ?thesis
    using assms by (simp add: fl_def Let_def ilog2_powi max_def)
qed

lemma roundNumber_Num:
  assumes "roundNumber r = Num c"
  shows "c = fl r"
  using assms by (auto simp: roundNumber_def Let_def split: if_splits)

lemma roundNumber_finite:
  assumes "\<bar>fl r\<bar> < 2 ^ 1024"
  shows "roundNumber r = Num (fl r)"
proof -
  from assms have "fl r < 2 ^ 1024" and "- (2 ^ 1024) < fl r"
    by (simp_all only: abs_less_iff) linarith+
  then show ?thesis
    by (simp only: roundNumber_def Let_def not_le [symmetric] if_False)
qed

lemma number_times_Num:
  assumes "number_times (Num a) (Num b) = Num c"
  shows "c = fmul a b"
  using assms by (simp add: fmul_def roundNumber_Num)

lemma fl_error_abs:
  "\<bar>fl x - x\<bar> \<le> max (\<bar>x\<bar> / 2 ^ 53) (2 powi (- 1075))"
proof (cases "2 powi (- 1022) \<le> \<bar>x\<bar>")
  case True
  then have "\<bar>fl x - x\<bar> \<le> \<bar>x\<bar> / 2 ^ 53"
    by (rule fl_error)
  then show ?thesis
    by (rule order_trans) (rule max.cobounded1)
next
  case False
  show ?thesis
  proof (cases "x = 0")
    case True
    then show ?thesis by (simp add: max_def)
  next
    case nz: False
    then have pos: "0 < \<bar>x\<bar>" by simp
    have small: "ilog2 \<bar>x\<bar> \<le> - 1022"
    proof (rule ccontr)
      assume "\<not> ilog2 \<bar>x\<bar> \<le> - 1022"
      then have "- 1022 \<le> ilog2 \<bar>x\<bar>" by simp
      then have "(2::rat) powi (- 1022) \<le> 2 powi ilog2 \<bar>x\<bar>"
        by (intro power_int_increasing) auto
      with ilog2_bounds(1) [OF pos] False show False by linarith
    qed
    define u :: rat where "u = 2 powi (- 1074)"
    have u: "0 < u" by (simp add: u_def)
    have flx: "fl x = sgn x * of_int (rne (\<bar>x\<bar> / u)) * u"
      using nz small by (simp add: fl_def Let_def max_def u_def)
    have "x = sgn x * \<bar>x\<bar>"
      by (simp add: sgn_mult_abs)
    moreover have "\<bar>x\<bar> = \<bar>x\<bar> / u * u"
      using u by simp
    ultimately have "x = sgn x * (\<bar>x\<bar> / u * u)"
      by simp
    then have "fl x - x = sgn x * of_int (rne (\<bar>x\<bar> / u)) * u - sgn x * (\<bar>x\<bar> / u * u)"
      using flx by simp
    also have "\<dots> = sgn x * ((of_int (rne (\<bar>x\<bar> / u)) - \<bar>x\<bar> / u) * u)"
      by (simp only: algebra_simps)
    finally have "\<bar>fl x - x\<bar> = \<bar>sgn x\<bar> * (\<bar>of_int (rne (\<bar>x\<bar> / u)) - \<bar>x\<bar> / u\<bar> * \<bar>u\<bar>)"
      by (simp only: abs_mult)
    also have "\<dots> = \<bar>of_int (rne (\<bar>x\<bar> / u)) - \<bar>x\<bar> / u\<bar> * u"
      using nz u by (simp add: abs_sgn_eq)
    also have "\<dots> \<le> (1 / 2) * u"
      using rne_error [of "\<bar>x\<bar> / u"] u by (intro mult_right_mono) auto
    also have "\<dots> = 2 powi (- 1075)"
    proof -
      have "(2::rat) powi (- 1075) = 2 powi (- 1074 - 1)" by simp
      also have "\<dots> = 2 powi (- 1074) / 2 powi 1"
        by (rule power_int_diff) simp
      finally show ?thesis by (simp add: u_def)
    qed
    finally show ?thesis
      by (rule order_trans) (rule max.cobounded2)
  qed
qed

lemma number_times_error:
  assumes "number_times (Num a) (Num b) = Num c"
  shows "\<bar>c - a * b\<bar> \<le> max (\<bar>a * b\<bar> / 2 ^ 53) (2 powi (- 1075))"
proof -
  have "c = fl (a * b)"
    using assms by (simp add: roundNumber_Num)
  with fl_error_abs [of "a * b"] show ?thesis by simp
qed

lemma number_times_finite:
  assumes "\<bar>a * b\<bar> < 2 ^ 1023"
  shows "number_times (Num a) (Num b) = Num (fmul a b)"
proof -
  have tiny: "(2::rat) powi (- 1075) \<le> 2 ^ 1023"
  proof -
    have "(2::rat) powi (- 1075) \<le> 2 powi 1023"
      by (intro power_int_increasing) auto
    then show ?thesis by simp
  qed
  have "\<bar>a * b\<bar> / 2 ^ 53 \<le> \<bar>a * b\<bar>"
    by (simp add: divide_le_eq)
  then have "\<bar>a * b\<bar> / 2 ^ 53 < 2 ^ 1023"
    using assms by (rule le_less_trans)
  have "\<bar>fl (a * b)\<bar> \<le> \<bar>a * b\<bar> + \<bar>fl (a * b) - a * b\<bar>"
    by linarith
  also have "\<dots> \<le> \<bar>a * b\<bar> + max (\<bar>a * b\<bar> / 2 ^ 53) (2 powi (- 1075))"
    using fl_error_abs [of "a * b"] by simp
  also have "\<dots> \<le> \<bar>a * b\<bar> + 2 ^ 1023"
    using tiny \<open>\<bar>a * b\<bar> / 2 ^ 53 < 2 ^ 1023\<close> by simp
  also have "\<dots> < 2 ^ 1023 + 2 ^ 1023"
    using assms by simp
  also have "\<dots> = (2::rat) ^ 1024"
    by simp
  finally have "\<bar>fl (a * b)\<bar> < 2 ^ 1024" .
  then have "roundNumber (a * b) = Num (fl (a * b))"
    by (rule roundNumber_finite)
  then show ?thesis
    by (simp add: fmul_def)
qed

lemma resizeDims_range:
  assumes "bitmapWidth < 2 ^ 32" "bitmapHeight < 2 ^ 32"
      and "resizeDims bitmapWidth bitmapHeight = (width, height)"
  shows "0 \<le> width \<and> width \<le> 1024 \<and> 0 \<le> height \<and> height \<le> 1024"
proof (cases "1024 < max bitmapWidth bitmapHeight")
  case False
  then have small: "bitmapWidth \<le> 1024" "bitmapHeight \<le> 1024" by auto
  from resizeDims_small [OF small] assms(3) small show ?thesis by auto
next
  case True
  have m: "max bitmapWidth bitmapHeight < 2 ^ 32"
    using assms(1,2) by (simp add: max_def)
  have "bitmapWidth \<le> max bitmapWidth bitmapHeight" by simp
  note w = scaled_round(1,2) [OF this True m]
  have "bitmapHeight \<le> max bitmapWidth bitmapHeight" by simp
  note h = scaled_round(1,2) [OF this True m]
  from resizeDims_large [OF True] assms(3) w h show ?thesis by auto
qed

lemma radius_finite:
  fixes n :: int
  assumes "0 \<le> n" "n \<le> 1024"
  shows "number_times (Num (of_int n)) (Num literal_0_05) = Num (fmul (of_int n) literal_0_05)"
proof -
  have c: "\<bar>fmul (of_int n) literal_0_05 - of_int n / 20\<bar> \<le> 1 / 2 ^ 45"
    using assms by (rule radius_close)
  have "(of_int n :: rat) \<le> 1024" "(0::rat) \<le> of_int n"
    using assms by simp_all
  then have "\<bar>(of_int n :: rat) / 20\<bar> \<le> 52"
    by simp
  moreover have "(1::rat) / 2 ^ 45 \<le> 1" by simp
  ultimately have "\<bar>fmul (of_int n) literal_0_05\<bar> \<le> 53"
    using c by linarith
  moreover have "(53::rat) < 2 ^ 1024" by simp
  ultimately have "\<bar>fl (of_int n * literal_0_05)\<bar> < 2 ^ 1024"
    unfolding fmul_def by (rule le_less_trans)
  then have "roundNumber (of_int n * literal_0_05) = Num (fl (of_int n * literal_0_05))"
    by (rule roundNumber_finite)
  then show ?thesis
    by (simp add: fmul_def)
qed

lemma pointMarker_resized:
  assumes "0 \<le> min width height" "min width height \<le> 1024"
  shows "pointMarker x y width height
           = (number_times x (Num (of_int width)), number_times y (Num (of_int height)),
              Num (max 20 (fmul (of_int (min width height)) literal_0_05)))"
  using radius_finite [OF assms] by (simp add: pointMarker_def Let_def)

lemma max_20_close:
  fixes a b :: rat
  shows "\<bar>max 20 a - max 20 b\<bar> \<le> \<bar>a - b\<bar>"
  by linarith

lemma removeObjectAtPoint_resized:
  assumes "API_KEY W \<noteq> []"
      and "fetchBitmap W photoUrl = Returns (bitmapWidth, bitmapHeight)"
      and "getContext2d W"
      and "resizeDims bitmapWidth bitmapHeight = (width, height)"
  shows "removeObjectAtPoint W photoUrl x y =
           (case toDataURL W
                   \<lparr>canvas_source = photoUrl, canvas_width = width, canvas_height = height,
                    canvas_marker = Some (pointMarker x y width height, ''#FF0000'')\<rparr>
                   ''image/jpeg'' (fl (85 / 100)) of
              Throws \<Rightarrow> (None, [FetchCall photoUrl])
            | Returns d \<Rightarrow>
                (case generateContent W
                        \<lparr>req_model = ''gemini-2.5-flash-image'',
                         req_inline = Some \<lparr>mimeType = ''image/jpeg'', data = d\<rparr>,
                         req_text = ''Remove the object covered by the red circle and the red circle itself. Fill in the background naturally to match the surroundings.'',
                         req_voice = None\<rparr> of
                   Throws \<Rightarrow>
                     (None, [FetchCall photoUrl, GenerateContentCall ''gemini-2.5-flash-image''])
                 | Returns response \<Rightarrow>
                     (imageOfResponse response,
                      [FetchCall photoUrl, GenerateContentCall ''gemini-2.5-flash-image''])))"
  using assms by (simp add: removeObjectAtPoint_def Let_def)

lemma pointMarker_centre_instance:
  "pointMarker (Num (1 / 2)) (Num (1 / 2)) 1000 1000 = (Num 500, Num 500, Num 50)"
proof -
  have i1: "fl (1 / 2 * 1000) = 500" by code_simp
  have i2: "fmul 1000 literal_0_05 = 50" by code_simp
  have "\<bar>fl (1 / 2 * 1000)\<bar> < 2 ^ 1024" unfolding i1 by simp
  then have "roundNumber (1 / 2 * 1000) = Num 500"
    using i1 by (simp only: roundNumber_finite)
  moreover have "(0::int) \<le> min 1000 1000" "min (1000::int) 1000 \<le> 1024" by simp_all
  note pointMarker_resized [OF this, of "Num (1 / 2)" "Num (1 / 2)"]
  ultimately show ?thesis using i2 by simp
qed

lemma pointMarker_outside_instance:
  "pointMarker (Num (3 / 2)) (Num (- 1 / 2)) 1000 1000 = (Num 1500, Num (- 500), Num 50)"
proof -
  have i1: "fl (3 / 2 * 1000) = 1500" by code_simp
  have i2: "fmul 1000 literal_0_05 = 50" by code_simp
  have i3: "fl (- 1 / 2 * 1000) = - 500" by code_simp
  have "\<bar>fl (3 / 2 * 1000)\<bar> < 2 ^ 1024" unfolding i1 by simp
  then have a: "roundNumber (3 / 2 * 1000) = Num 1500"
    using i1 by (simp only: roundNumber_finite)
  have "\<bar>fl (- 1 / 2 * 1000)\<bar> < 2 ^ 1024" unfolding i3 by simp
  then have b: "roundNumber (- 1 / 2 * 1000) = Num (- 500)"
    using i3 by (simp only: roundNumber_finite)
  have "(0::int) \<le> min 1000 1000" "min (1000::int) 1000 \<le> 1024" by simp_all
  note pointMarker_resized [OF this, of "Num (3 / 2)" "Num (- 1 / 2)"]
  then show ?thesis using a b i2 by simp
qed

text \<open>
  A product beyond the finite range is \<open>Infinity\<close>, and \<open>Infinity * 0\<close> is \<open>NaN\<close>: the
  centre of the marker need not be finite.
\<close>

lemma pointMarker_overflow_instance:
  "pointMarker (Num (2 ^ 1023)) PosInfinity 2 0 = (PosInfinity, NaN, Num 20)"
proof -
  have "(2::rat) ^ 1023 * 2 = 2 powi 1024"
    by simp
  then have i1: "fl (2 ^ 1023 * 2) = 2 ^ 1024"
    using fl_powi [of 1024] by simp
  have a: "roundNumber (2 ^ 1023 * 2) = PosInfinity"
    by (simp only: roundNumber_def Let_def i1 order_refl if_True)
  have "(0::int) \<le> min 2 0" "min (2::int) 0 \<le> 1024" by simp_all
  note pointMarker_resized [OF this, of "Num (2 ^ 1023)" PosInfinity]
  then show ?thesis using a by (simp add: signedInfinity_def fmul_def)
qed

text \<open>
  C3. Whenever \<open>removeObjectAtPoint\<close> gets as far as the canvas (a credential, a bitmap
  of at most \<open>2^32 - 1\<close> pixels a side, a 2D context), it hands to the encoder the canvas
  of the size \<open>width\<close> by \<open>height\<close> that the resizing computed, with a circle filled in
  \<open>#FF0000\<close> whose centre is \<open>(x * width, y * height)\<close> and whose radius is
  \<open>max(20, min(width, height) * 0.05)\<close>, for every \<open>x\<close> and \<open>y\<close>, and what it returns is
  what the encoder and the model make of that canvas. The products are JavaScript's:
  the radius is a finite number, at least 20 and within \<open>2^-45\<close> of
  \<open>max(20, min(width, height) / 20)\<close>; a centre coordinate is finite when the exact
  product is below \<open>2^1023\<close> in magnitude, and a centre coordinate that is finite, for a
  finite \<open>x\<close> or \<open>y\<close>, is the exact product rounded to binary64, within the relative
  error \<open>2^-53\<close> or, for the smallest products, the absolute error \<open>2^-1075\<close>. Nothing
  clamps \<open>x\<close> or \<open>y\<close>: at
  \<open>(0.5, 0.5)\<close> on a 1000 by 1000 canvas the marker is at \<open>(500, 500)\<close> with radius 50,
  and at \<open>(1.5, -0.5)\<close> it is at \<open>(1500, -500)\<close>, outside the canvas.
\<close>

theorem removeObjectAtPoint_draws_marker:
  assumes key: "API_KEY W \<noteq> []"
      and bitmap: "fetchBitmap W photoUrl = Returns (bitmapWidth, bitmapHeight)"
      and side: "bitmapWidth < 2 ^ 32" "bitmapHeight < 2 ^ 32"
      and ctx: "getContext2d W"
      and dims: "resizeDims bitmapWidth bitmapHeight = (width, height)"
  shows "\<exists>centerX centerY radius.
           centerX = number_times x (Num (of_int width))
         \<and> centerY = number_times y (Num (of_int height))
         \<and> radius = max 20 (fmul (of_int (min width height)) literal_0_05)
         \<and> pointMarker x y width height = (centerX, centerY, Num radius)
         \<and> removeObjectAtPoint W photoUrl x y =
             (case toDataURL W
                     \<lparr>canvas_source = photoUrl, canvas_width = width, canvas_height = height,
                      canvas_marker = Some ((centerX, centerY, Num radius), ''#FF0000'')\<rparr>
                     ''image/jpeg'' (fl (85 / 100)) of
                Throws \<Rightarrow> (None, [FetchCall photoUrl])
              | Returns d \<Rightarrow>
                  (case generateContent W
                          \<lparr>req_model = ''gemini-2.5-flash-image'',
                           req_inline = Some \<lparr>mimeType = ''image/jpeg'', data = d\<rparr>,
                           req_text = ''Remove the object covered by the red circle and the red circle itself. Fill in the background naturally to match the surroundings.'',
                           req_voice = None\<rparr> of
                     Throws \<Rightarrow>
                       (None, [FetchCall photoUrl, GenerateContentCall ''gemini-2.5-flash-image''])
                   | Returns response \<Rightarrow>
                       (imageOfResponse response,
                        [FetchCall photoUrl, GenerateContentCall ''gemini-2.5-flash-image''])))
         \<and> 20 \<le> radius
         \<and> \<bar>radius - max 20 (of_int (min width height) / 20)\<bar> \<le> 1 / 2 ^ 45
         \<and> (\<forall>a. x = Num a \<and> \<bar>a * of_int width\<bar> < 2 ^ 1023
                \<longrightarrow> centerX = Num (fmul a (of_int width)))
         \<and> (\<forall>a. y = Num a \<and> \<bar>a * of_int height\<bar> < 2 ^ 1023
                \<longrightarrow> centerY = Num (fmul a (of_int height)))
         \<and> (\<forall>a c. x = Num a \<and> centerX = Num c
                \<longrightarrow> c = fmul a (of_int width)
                    \<and> \<bar>c - a * of_int width\<bar>
                          \<le> max (\<bar>a * of_int width\<bar> / 2 ^ 53) (2 powi (- 1075)))
         \<and> (\<forall>a c. y = Num a \<and> centerY = Num c
                \<longrightarrow> c = fmul a (of_int height)
                    \<and> \<bar>c - a * of_int height\<bar>
                          \<le> max (\<bar>a * of_int height\<bar> / 2 ^ 53) (2 powi (- 1075)))
         \<and> pointMarker (Num (1 / 2)) (Num (1 / 2)) 1000 1000 = (Num 500, Num 500, Num 50)
         \<and> pointMarker (Num (3 / 2)) (Num (- 1 / 2)) 1000 1000
             = (Num 1500, Num (- 500), Num 50)"
proof -
  have range: "0 \<le> width \<and> width \<le> 1024 \<and> 0 \<le> height \<and> height \<le> 1024"
    using side dims by (rule resizeDims_range)
  then have m: "0 \<le> min width height" "min width height \<le> 1024"
    by auto
  have marker: "pointMarker x y width height
                  = (number_times x (Num (of_int width)), number_times y (Num (of_int height)),
                     Num (max 20 (fmul (of_int (min width height)) literal_0_05)))"
    using m by (rule pointMarker_resized)
  have pipeline: "removeObjectAtPoint W photoUrl x y =
             (case toDataURL W
                     \<lparr>canvas_source = photoUrl, canvas_width = width, canvas_height = height,
                      canvas_marker = Some ((number_times x (Num (of_int width)),
                                             number_times y (Num (of_int height)),
                                             Num (max 20 (fmul (of_int (min width height)) literal_0_05))),
                                            ''#FF0000'')\<rparr>
                     ''image/jpeg'' (fl (85 / 100)) of
                Throws \<Rightarrow> (None, [FetchCall photoUrl])
              | Returns d \<Rightarrow>
                  (case generateContent W
                          \<lparr>req_model = ''gemini-2.5-flash-image'',
                           req_inline = Some \<lparr>mimeType = ''image/jpeg'', data = d\<rparr>,
                           req_text = ''Remove the object covered by the red circle and the red circle itself. Fill in the background naturally to match the surroundings.'',
                           req_voice = None\<rparr> of
                     Throws \<Rightarrow>
                       (None, [FetchCall photoUrl, GenerateContentCall ''gemini-2.5-flash-image''])
                   | Returns response \<Rightarrow>
                       (imageOfResponse response,
                        [FetchCall photoUrl, GenerateContentCall ''gemini-2.5-flash-image''])))"
    using removeObjectAtPoint_resized [OF key bitmap ctx dims, of x y]
    by (simp only: marker)
  have rad: "\<bar>max 20 (fmul (of_int (min width height)) literal_0_05)
               - max 20 (of_int (min width height) / 20)\<bar> \<le> 1 / 2 ^ 45"
    using max_20_close radius_close [OF m] by (rule order_trans)
  have fx: "number_times x (Num (of_int width)) = Num (fmul a (of_int width))"
    if "x = Num a \<and> \<bar>a * of_int width\<bar> < 2 ^ 1023" for a
    using that number_times_finite [of a "of_int width"] by simp
  have fy: "number_times y (Num (of_int height)) = Num (fmul a (of_int height))"
    if "y = Num a \<and> \<bar>a * of_int height\<bar> < 2 ^ 1023" for a
    using that number_times_finite [of a "of_int height"] by simp
  have cx: "c = fmul a (of_int width)
            \<and> \<bar>c - a * of_int width\<bar> \<le> max (\<bar>a * of_int width\<bar> / 2 ^ 53) (2 powi (- 1075))"
    if "x = Num a \<and> number_times x (Num (of_int width)) = Num c" for a c
    using that number_times_Num [of a "of_int width" c] number_times_error [of a "of_int width" c]
    by blast
  have cy: "c = fmul a (of_int height)
            \<and> \<bar>c - a * of_int height\<bar> \<le> max (\<bar>a * of_int height\<bar> / 2 ^ 53) (2 powi (- 1075))"
    if "y = Num a \<and> number_times y (Num (of_int height)) = Num c" for a c
    using that number_times_Num [of a "of_int height" c] number_times_error [of a "of_int height" c]
    by blast
  have twenty: "(20::rat) \<le> max 20 (fmul (of_int (min width height)) literal_0_05)"
    by simp
  show ?thesis
    apply (rule exI [of _ "number_times x (Num (of_int width))"])
    apply (rule exI [of _ "number_times y (Num (of_int height))"])
    apply (rule exI [of _ "max 20 (fmul (of_int (min width height)) literal_0_05)"])
    using marker pipeline rad fx fy cx cy twenty pointMarker_centre_instance
      pointMarker_outside_instance
    apply (intro conjI allI impI)
    apply (blast | rule refl)+
    done
qed

theorem removeObjectAtPoint_draws_marker_witness:
  "API_KEY markerWorld \<noteq> []
   \<and> fetchBitmap markerWorld ''data:1'' = Returns (1000, 1000)
   \<and> (1000::nat) < 2 ^ 32
   \<and> getContext2d markerWorld
   \<and> resizeDims 1000 1000 = (1000, 1000)
   \<and> removeObjectAtPoint markerWorld ''data:1'' (Num (1 / 2)) (Num (1 / 2))
       = (Some ''data:image/png;base64,circle'',
          [FetchCall ''data:1'', GenerateContentCall ''gemini-2.5-flash-image''])"
proof -
  have key: "API_KEY markerWorld \<noteq> []"
    by (simp add: markerWorld_def)
  have bitmap: "fetchBitmap markerWorld ''data:1'' = Returns (1000, 1000)"
    by (simp add: markerWorld_def)
  have side: "(1000::nat) < 2 ^ 32"
    by simp
  have ctx: "getContext2d markerWorld"
    by (simp add: markerWorld_def)
  have dims: "resizeDims 1000 1000 = (1000, 1000)"
    using resizeDims_small [of 1000 1000] by simp
  have i1: "fl (1 / 2 * 1000) = 500" by code_simp
  have i2: "fmul 1000 literal_0_05 = 50" by code_simp
  have "\<bar>fl (1 / 2 * 1000)\<bar> < 2 ^ 1024" unfolding i1 by simp
  then have half: "number_times (Num (1 / 2)) (Num 1000) = Num 500"
    using i1 by (simp add: roundNumber_finite)
  from removeObjectAtPoint_draws_marker
         [OF key bitmap side side ctx dims, of "Num (1 / 2)" "Num (1 / 2)"]
  have "removeObjectAtPoint markerWorld ''data:1'' (Num (1 / 2)) (Num (1 / 2))
       = (Some ''data:image/png;base64,circle'',
          [FetchCall ''data:1'', GenerateContentCall ''gemini-2.5-flash-image''])"
    using half i2 by (auto simp: markerWorld_def imageOfResponse_def)
  with key bitmap side ctx dims show ?thesis
    by blast
qed

section \<open>Properties of the gateway\<close>

text \<open>
  C4 (as amended). When no credential is configured, every gateway function returns at
  once, without any network call: categorize returns "Uncategorized", stylize, both
  object removals, speech synthesis and track synthesis return \<open>null\<close>, auto-narrate
  returns the message "API Key missing. Please provide a description manually.", and
  transcribe returns the message "API Key missing.".
\<close>

theorem no_credential_short_circuits:
  assumes "API_KEY W = []"
  shows "suggestCategory W photoUrl = (''Uncategorized'', [])
       \<and> generateAutoNarration W photoUrl tone
           = (''API Key missing. Please provide a description manually.'', [])
       \<and> transcribeAudio W audioUrl = (''API Key missing.'', [])
       \<and> stylizeImage W photoUrl style = (None, [])
       \<and> removeObject W photoUrl objectDescription = (None, [])
       \<and> removeObjectAtPoint W photoUrl x y = (None, [])
       \<and> generateSpeech W narrationText = (None, [])
       \<and> generateAiTrack W cat = (None, [])"
  using assms
  by (simp add: suggestCategory_def generateAutoNarration_def transcribeAudio_def
      stylizeImage_def removeObject_def removeObjectAtPoint_def generateSpeech_def
      generateAiTrack_def)

theorem no_credential_short_circuits_witness:
  "API_KEY (dogWorld\<lparr>API_KEY := []\<rparr>) = []
   \<and> suggestCategory (dogWorld\<lparr>API_KEY := []\<rparr>) ''data:1'' = (''Uncategorized'', [])
   \<and> generateAutoNarration (dogWorld\<lparr>API_KEY := []\<rparr>) ''data:1'' ''Funny''
       = (''API Key missing. Please provide a description manually.'', [])
   \<and> transcribeAudio (dogWorld\<lparr>API_KEY := []\<rparr>) ''blob:1'' = (''API Key missing.'', [])
   \<and> stylizeImage (dogWorld\<lparr>API_KEY := []\<rparr>) ''data:1'' ''Anime'' = (None, [])
   \<and> removeObject (dogWorld\<lparr>API_KEY := []\<rparr>) ''data:1'' ''car'' = (None, [])
   \<and> removeObjectAtPoint (dogWorld\<lparr>API_KEY := []\<rparr>) ''data:1'' (Num (1 / 2)) (Num (1 / 2)) = (None, [])
   \<and> generateSpeech (dogWorld\<lparr>API_KEY := []\<rparr>) ''hello'' = (None, [])
   \<and> generateAiTrack (dogWorld\<lparr>API_KEY := []\<rparr>) ''Upbeat'' = (None, [])"
proof -
  have key: "API_KEY (dogWorld\<lparr>API_KEY := []\<rparr>) = []"
    by simp
  from no_credential_short_circuits [OF key] key show ?thesis
    by blast
qed

text \<open>
  The claim as stated has transcribe return the empty string without a credential; it
  returns the message instead (the empty string is what it returns when the remote call
  throws). The world here would answer every call; only the credential is missing.
\<close>

theorem transcribe_without_credential_returns_message:
  "API_KEY (dogWorld\<lparr>API_KEY := []\<rparr>) = []
   \<and> transcribeAudio (dogWorld\<lparr>API_KEY := []\<rparr>) ''blob:1'' = (''API Key missing.'', [])
   \<and> ''API Key missing.'' \<noteq> ([] :: string)"
  by (simp add: transcribeAudio_def)

text \<open>
  C5 (as amended). \<open>suggestCategory\<close> returns "Uncategorized" when no credential is
  configured (then without a network call), when the image cannot be prepared, when
  the remote call throws, and when the response has no text or only white space; in
  the remaining case it returns the text of the response, trimmed, whatever it is. The
  result is therefore one of the fixed labels exactly when it is "Uncategorized" or the
  model answered with a fixed label.
\<close>

theorem suggestCategory_returns_reply_or_fallback:
  "(API_KEY W = [] \<longrightarrow> suggestCategory W u = (''Uncategorized'', []))
   \<and> (API_KEY W \<noteq> [] \<and> fst (fileToGenerativePart W u) = None
        \<longrightarrow> fst (suggestCategory W u) = ''Uncategorized'')
   \<and> (\<forall>imageData response t.
        API_KEY W \<noteq> [] \<and> fst (fileToGenerativePart W u) = Some imageData \<longrightarrow>
        (generateContent W \<lparr>req_model = ''gemini-2.5-flash'', req_inline = Some imageData,
                             req_text = categoryPrompt, req_voice = None\<rparr> = Throws
           \<longrightarrow> fst (suggestCategory W u) = ''Uncategorized'')
      \<and> (generateContent W \<lparr>req_model = ''gemini-2.5-flash'', req_inline = Some imageData,
                             req_text = categoryPrompt, req_voice = None\<rparr> = Returns response
           \<longrightarrow> (resp_text response = None \<longrightarrow> fst (suggestCategory W u) = ''Uncategorized'')
             \<and> (resp_text response = Some t \<and> trim t = []
                  \<longrightarrow> fst (suggestCategory W u) = ''Uncategorized'')
             \<and> (resp_text response = Some t \<and> trim t \<noteq> []
                  \<longrightarrow> fst (suggestCategory W u) = trim t)))"
  by (auto simp: suggestCategory_def orElse_def trimmedText_def split: prod.splits option.splits)

theorem suggestCategory_returns_reply_or_fallback_witness:
  "API_KEY dogWorld \<noteq> []
   \<and> fst (fileToGenerativePart dogWorld ''data:1'') = Some \<lparr>mimeType = ''image/jpeg'', data = ''AAAA''\<rparr>
   \<and> generateContent dogWorld
        \<lparr>req_model = ''gemini-2.5-flash'',
         req_inline = Some \<lparr>mimeType = ''image/jpeg'', data = ''AAAA''\<rparr>,
         req_text = categoryPrompt, req_voice = None\<rparr>
       = Returns \<lparr>resp_text = Some ('' Dog'' @ [CHR 0x0A]), resp_parts = None\<rparr>
   \<and> trim ('' Dog'' @ [CHR 0x0A]) = ''Dog''
   \<and> fst (suggestCategory dogWorld ''data:1'') = ''Dog''
   \<and> API_KEY offlineWorld = []
   \<and> suggestCategory offlineWorld ''data:1'' = (''Uncategorized'', [])"
proof -
  have key: "API_KEY dogWorld \<noteq> []"
    by (simp add: dogWorld_def)
  have img: "fst (fileToGenerativePart dogWorld ''data:1'')
               = Some \<lparr>mimeType = ''image/jpeg'', data = ''AAAA''\<rparr>"
    by (simp add: fileToGenerativePart_def dogWorld_def resizeDims_def maxDimension_def)
  have gen: "generateContent dogWorld
        \<lparr>req_model = ''gemini-2.5-flash'',
         req_inline = Some \<lparr>mimeType = ''image/jpeg'', data = ''AAAA''\<rparr>,
         req_text = categoryPrompt, req_voice = None\<rparr>
       = Returns \<lparr>resp_text = Some ('' Dog'' @ [CHR 0x0A]), resp_parts = None\<rparr>"
    by (simp add: dogWorld_def)
  have tr: "trim ('' Dog'' @ [CHR 0x0A]) = ''Dog''"
    by (simp add: trim_def isWhiteSpace_def)
  have off: "API_KEY offlineWorld = []"
    by (simp add: offlineWorld_def)
  have reply: "resp_text \<lparr>resp_text = Some ('' Dog'' @ [CHR 0x0A]), resp_parts = None\<rparr>
               = Some ('' Dog'' @ [CHR 0x0A])"
    by simp
  have ne: "trim ('' Dog'' @ [CHR 0x0A]) \<noteq> []"
    by (simp add: trim_def isWhiteSpace_def)
  from suggestCategory_returns_reply_or_fallback [of dogWorld "''data:1''"] key img gen reply ne
  have "fst (suggestCategory dogWorld ''data:1'') = trim ('' Dog'' @ [CHR 0x0A])"
    by blast
  moreover from suggestCategory_returns_reply_or_fallback [of offlineWorld "''data:1''"] off
  have "suggestCategory offlineWorld ''data:1'' = (''Uncategorized'', [])"
    by blast
  ultimately show ?thesis
    using key img gen tr off by simp
qed

text \<open>
  The claim as stated has every successful call return a fixed label; the reply is not
  checked against the list, so a model that answers "Dog" makes the result "Dog".
\<close>

theorem suggestCategory_passes_any_reply:
  "fst (suggestCategory dogWorld ''data:1'') = ''Dog''
   \<and> ''Dog'' \<notin> set ImageCategory_values"
  by (simp add: suggestCategory_def fileToGenerativePart_def dogWorld_def resizeDims_def
      maxDimension_def orElse_def trimmedText_def trim_def isWhiteSpace_def
      ImageCategory_values_def UNCATEGORIZED_def)

section \<open>Properties of the categorisation queue\<close>

lemma sequential_network:
  "sequential InFlight (map Network calls @ es) = sequential InFlight es"
  by (induction calls) auto

lemma filter_isInvoked_network [simp]: "filter isInvoked (map Network calls) = []"
  by (induction calls) auto

lemma filter_isStateUpdate_network [simp]: "filter isStateUpdate (map Network calls) = []"
  by (induction calls) auto

lemma queue_closed_form:
  "processCategoriesQueue W batch
     = concat (map (\<lambda>p. [Invoked (url p)] @ map Network (snd (suggestCategory W (url p)))
                        @ [Resolved (fst (suggestCategory W (url p))),
                           StateUpdate (pid p) (fst (suggestCategory W (url p))),
                           Delay 1000]) batch)"
  by (induction batch) (simp_all add: split_beta)

lemma queue_sequential: "sequential Ready (processCategoriesQueue W batch)"
  by (induction batch) (simp_all add: split_beta sequential_network)

lemma queue_requests:
  "filter isInvoked (processCategoriesQueue W batch) = map (\<lambda>p. Invoked (url p)) batch"
  by (induction batch) (simp_all add: split_beta)

lemma queue_updates:
  "filter isStateUpdate (processCategoriesQueue W batch)
     = map (\<lambda>p. StateUpdate (pid p) (fst (suggestCategory W (url p)))) batch"
  by (induction batch) (simp_all add: split_beta)

text \<open>
  C6. Whatever the world answers, the run of the queue over a batch is the
  concatenation, in batch order, of one segment per photo: the call of
  \<open>suggestCategory\<close>, its network calls, its resolution, the state update for the photo
  and a delay of 1000 ms. The run satisfies the rate-limiting contract (\<open>sequential\<close>):
  no request is issued while one is in flight, and after a resolution none is issued
  before a non-zero delay. Every photo of the batch gets its request and its state
  update, whether or not the calls for other photos failed.
\<close>

theorem queue_is_sequential:
  "processCategoriesQueue W batch
     = concat (map (\<lambda>p. [Invoked (url p)] @ map Network (snd (suggestCategory W (url p)))
                        @ [Resolved (fst (suggestCategory W (url p))),
                           StateUpdate (pid p) (fst (suggestCategory W (url p))),
                           Delay 1000]) batch)
   \<and> sequential Ready (processCategoriesQueue W batch)
   \<and> filter isInvoked (processCategoriesQueue W batch) = map (\<lambda>p. Invoked (url p)) batch
   \<and> filter isStateUpdate (processCategoriesQueue W batch)
       = map (\<lambda>p. StateUpdate (pid p) (fst (suggestCategory W (url p)))) batch"
  using queue_closed_form queue_sequential queue_requests queue_updates by blast

theorem queue_is_sequential_example:
  "processCategoriesQueue flakyWorld
     [uploadedPhoto ''a'' ''data:1'' ''one.png'', uploadedPhoto ''b'' ''data:2'' ''two.png'',
      uploadedPhoto ''c'' ''data:3'' ''three.png'']
   = [Invoked ''data:1'', Network (FetchCall ''data:1''),
      Network (GenerateContentCall ''gemini-2.5-flash''),
      Resolved ''People'', StateUpdate ''a'' ''People'', Delay 1000,
      Invoked ''data:2'', Network (FetchCall ''data:2''),
      Resolved ''Uncategorized'', StateUpdate ''b'' ''Uncategorized'', Delay 1000,
      Invoked ''data:3'', Network (FetchCall ''data:3''),
      Network (GenerateContentCall ''gemini-2.5-flash''),
      Resolved ''People'', StateUpdate ''c'' ''People'', Delay 1000]"
proof -
  have ok: "suggestCategory flakyWorld u
              = (''People'', [FetchCall u, GenerateContentCall ''gemini-2.5-flash''])"
    if "u \<noteq> ''data:2''" for u
    using that
    by (simp add: suggestCategory_def fileToGenerativePart_def flakyWorld_def resizeDims_def
        maxDimension_def orElse_def trimmedText_def trim_def isWhiteSpace_def)
  have bad: "suggestCategory flakyWorld ''data:2'' = (''Uncategorized'', [FetchCall ''data:2''])"
    by (simp add: suggestCategory_def fileToGenerativePart_def flakyWorld_def)
  from queue_is_sequential [of flakyWorld
      "[uploadedPhoto ''a'' ''data:1'' ''one.png'', uploadedPhoto ''b'' ''data:2'' ''two.png'',
        uploadedPhoto ''c'' ''data:3'' ''three.png'']"]
  show ?thesis
    by (simp add: ok bad uploadedPhoto_def)
qed

section \<open>Properties of the runs\<close>

lemma keepsOriginal_iff:
  "keepsOriginal created p \<longleftrightarrow> (\<exists>q\<in>set created. pid q = pid p \<and> originalUrl q = originalUrl p)"
  by (simp add: keepsOriginal_def list_ex_iff)

lemma keepsOriginal_same:
  "pid p' = pid p \<Longrightarrow> originalUrl p' = originalUrl p \<Longrightarrow> keepsOriginal created p
     \<Longrightarrow> keepsOriginal created p'"
  by (simp add: keepsOriginal_iff)

lemma handleReorder_set:
  assumes "handleReorder fromId toId st = Inr st'"
  shows "set (photos st') = set (photos st)"
proof -
  from handleReorder_cases [of fromId toId st] show ?thesis
  proof
    assume "handleReorder fromId toId st = Inr st"
    with assms show ?thesis by simp
  next
    assume "\<exists>n s. n < length (photos st)
        \<and> handleReorder fromId toId st =
            Inr (st\<lparr>photos := take s (take n (photos st) @ drop (Suc n) (photos st))
                                @ [photos st ! n]
                                @ drop s (take n (photos st) @ drop (Suc n) (photos st))\<rparr>)"
    then obtain n s where n: "n < length (photos st)"
      and eq: "handleReorder fromId toId st =
            Inr (st\<lparr>photos := take s (take n (photos st) @ drop (Suc n) (photos st))
                                @ [photos st ! n]
                                @ drop s (take n (photos st) @ drop (Suc n) (photos st))\<rparr>)"
      by blast
    have "mset (take s (take n (photos st) @ drop (Suc n) (photos st)) @ [photos st ! n]
                @ drop s (take n (photos st) @ drop (Suc n) (photos st)))
          = mset (photos st)"
      unfolding mset_insert_at using mset_remove_nth [OF n] by simp
    then have "set (take s (take n (photos st) @ drop (Suc n) (photos st)) @ [photos st ! n]
                @ drop s (take n (photos st) @ drop (Suc n) (photos st)))
          = set (photos st)"
      by (rule mset_eq_setD)
    with eq assms show ?thesis by auto
  qed
qed

lemma photoProp_in_photos:
  "photoProp st = Some photo \<Longrightarrow> photo \<in> set (photos st)"
  by (auto simp: photoProp_def find_Some_iff split: option.splits)

lemma render_keeps:
  assumes "originalsKept created s" "render s = Inr s'"
  shows "originalsKept created s'"
  using assms
  by (auto simp: render_def originalsKept_def split: if_splits option.splits
      dest: photoProp_in_photos)

lemma editorUpdate_keeps:
  assumes f: "keepsIdentity f"
    and inv: "originalsKept created s" and upd: "editorUpdate f s = Inr s'"
  shows "originalsKept created s'"
proof -
  have s': "s' = s\<lparr>editedPhoto := map_option f (editedPhoto s)\<rparr>"
    using upd by (simp add: editorUpdate_def)
  have "keepsOriginal created e'" if e': "map_option f (editedPhoto s) = Some (Whole e')" for e'
  proof -
    from e' obtain c where c: "editedPhoto s = Some c" "f c = Whole e'"
      by auto
    show ?thesis
    proof (cases c)
      case (Whole p)
      from f obtain p' where "f (Whole p) = Whole p'" "pid p' = pid p"
        "originalUrl p' = originalUrl p"
        unfolding keepsIdentity_def by blast
      with c Whole have same: "pid e' = pid p" "originalUrl e' = originalUrl p"
        by simp_all
      have "keepsOriginal created p"
        using inv c Whole by (simp add: originalsKept_def)
      with same show ?thesis by (rule keepsOriginal_same)
    next
      case (Partial q)
      from f obtain q' where "f (Partial q) = Partial q'"
        unfolding keepsIdentity_def by blast
      with c Partial show ?thesis by simp
    qed
  qed
  with inv show ?thesis
    by (simp add: s' originalsKept_def)
qed

lemma resetEditor_keeps:
  assumes "originalsKept created s" "resetEditor s = Inr s'"
  shows "originalsKept created s'"
proof (cases "editedPhoto s")
  case None
  with assms show ?thesis by (simp add: resetEditor_def)
next
  case (Some e)
  with assms(2) have s': "s' = s\<lparr>editedPhoto := Some (handleReset (photoProp (app s)))\<rparr>"
    by (simp add: resetEditor_def)
  show ?thesis
  proof (cases "photoProp (app s)")
    case None
    with assms(1) show ?thesis
      by (simp add: s' originalsKept_def)
  next
    case (Some photo)
    have "keepsOriginal created photo"
      using assms(1) photoProp_in_photos [OF Some] by (simp add: originalsKept_def)
    then have "keepsOriginal created (photo\<lparr>filters := DEFAULT_FILTERS, rotation := 0\<rparr>)"
      by (rule keepsOriginal_same [rotated 2]) simp_all
    with assms(1) Some show ?thesis
      by (simp add: s' originalsKept_def)
  qed
qed

lemma withFilters_keeps: "keepsIdentity (\<lambda>c. withFilters (g c) c)"
  by (simp add: keepsIdentity_def)

lemma updateFilter_keeps: "keepsIdentity (updateFilter key v)"
  by (simp add: keepsIdentity_def updateFilter_def)

lemma handleRotate_keeps: "keepsIdentity handleRotate"
  by (simp add: keepsIdentity_def handleRotate_def)

lemma handleAutoEnhance_keeps: "keepsIdentity handleAutoEnhance"
  by (simp add: keepsIdentity_def handleAutoEnhance_def)

lemma applyPreset_keeps: "keepsIdentity (applyPreset style)"
  by (simp add: keepsIdentity_def applyPreset_def)

lemma setNarration_keeps: "keepsIdentity (setNarration t)"
  by (simp add: keepsIdentity_def setNarration_def)

lemma speechResolved_keeps: "keepsIdentity (speechResolved audioUrl)"
  by (simp add: keepsIdentity_def speechResolved_def split: option.splits)

lemma imageResolved_keeps: "keepsIdentity (imageResolved newImageUrl)"
  by (simp add: keepsIdentity_def imageResolved_def split: option.splits)

lemma transcribeResolved_keeps: "keepsIdentity (transcribeResolved t)"
  by (simp add: keepsIdentity_def transcribeResolved_def)

lemma recordingStopped_keeps: "keepsIdentity (recordingStopped audioUrl)"
  by (simp add: keepsIdentity_def recordingStopped_def)

lemma step_keeps:
  assumes inv: "originalsKept created s"
    and added: "\<forall>q\<in>set (addedBy op). keepsOriginal created q"
    and st: "step op s = Inr s'"
  shows "originalsKept created s'"
proof (cases op)
  case (AddPhotos newPhotos)
  have "originalsKept created (s\<lparr>app := (app s)\<lparr>photos := photos (app s) @ newPhotos\<rparr>\<rparr>)"
    using inv added AddPhotos by (auto simp: originalsKept_def)
  moreover have "render (s\<lparr>app := (app s)\<lparr>photos := photos (app s) @ newPhotos\<rparr>\<rparr>) = Inr s'"
    using st AddPhotos by simp
  ultimately show ?thesis by (rule render_keeps)
next
  case (Reorder fromId toId)
  with st obtain st' where r: "handleReorder fromId toId (app s) = Inr st'"
    and rd: "render (s\<lparr>app := st'\<rparr>) = Inr s'"
    by (auto simp: andThen_def split: sum.splits)
  have "originalsKept created (s\<lparr>app := st'\<rparr>)"
    using inv handleReorder_set [OF r] by (simp add: originalsKept_def)
  then show ?thesis using rd by (rule render_keeps)
next
  case (UpdateCategory i cat)
  have "originalsKept created (s\<lparr>app := updateCategory i cat (app s)\<rparr>)"
    using inv by (auto simp: originalsKept_def updateCategory_def keepsOriginal_iff)
  moreover have "render (s\<lparr>app := updateCategory i cat (app s)\<rparr>) = Inr s'"
    using st UpdateCategory by simp
  ultimately show ?thesis by (rule render_keeps)
next
  case (DeletePhoto i)
  have "originalsKept created (s\<lparr>app := deletePhoto i (app s)\<rparr>)"
    using inv by (auto simp: originalsKept_def deletePhoto_def)
  moreover have "render (s\<lparr>app := deletePhoto i (app s)\<rparr>) = Inr s'"
    using st DeletePhoto by simp
  ultimately show ?thesis by (rule render_keeps)
next
  case (AddCustomCategory c)
  have "originalsKept created (s\<lparr>customCategories := customCategories s @ [c]\<rparr>)"
    using inv by (simp add: originalsKept_def)
  moreover have "render (s\<lparr>customCategories := customCategories s @ [c]\<rparr>) = Inr s'"
    using st AddCustomCategory by simp
  ultimately show ?thesis by (rule render_keeps)
next
  case (DeleteCustomCategory c)
  have "originalsKept created
          (s\<lparr>app := snd (handleDeleteCustomCategory c (customCategories s, app s)),
             customCategories := fst (handleDeleteCustomCategory c (customCategories s, app s))\<rparr>)"
    using inv by (auto simp: originalsKept_def handleDeleteCustomCategory_def keepsOriginal_iff)
  moreover have "render (s\<lparr>app := snd (handleDeleteCustomCategory c (customCategories s, app s)),
             customCategories := fst (handleDeleteCustomCategory c (customCategories s, app s))\<rparr>) = Inr s'"
    using st DeleteCustomCategory by (simp add: split_beta)
  ultimately show ?thesis by (rule render_keeps)
next
  case (OnEdit i)
  have "originalsKept created (s\<lparr>app := (app s)\<lparr>currentView := editor, editingPhotoId := Some i\<rparr>\<rparr>)"
    using inv by (simp add: originalsKept_def)
  moreover have "render (s\<lparr>app := (app s)\<lparr>currentView := editor, editingPhotoId := Some i\<rparr>\<rparr>) = Inr s'"
    using st OnEdit by simp
  ultimately show ?thesis by (rule render_keeps)
next
  case OnCancel
  have "originalsKept created (s\<lparr>app := (app s)\<lparr>currentView := gallery, editingPhotoId := None\<rparr>\<rparr>)"
    using inv by (simp add: originalsKept_def)
  moreover have "render (s\<lparr>app := (app s)\<lparr>currentView := gallery, editingPhotoId := None\<rparr>\<rparr>) = Inr s'"
    using st OnCancel by simp
  ultimately show ?thesis by (rule render_keeps)
next
  case OnSave
  show ?thesis
  proof (cases "editedPhoto s")
    case None
    with st OnSave inv show ?thesis by simp
  next
    case (Some e)
    have "originalsKept created (s\<lparr>app := saveEditedCopy e (app s)\<rparr>)"
    proof (cases e)
      case (Whole updatedPhoto)
      with inv Some show ?thesis
        by (auto simp: originalsKept_def saveEditedPhoto_def)
    next
      case (Partial updatedPhoto)
      with inv Some show ?thesis
        by (simp add: originalsKept_def)
    qed
    moreover have "render (s\<lparr>app := saveEditedCopy e (app s)\<rparr>) = Inr s'"
      using st OnSave Some by simp
    ultimately show ?thesis by (rule render_keeps)
  qed
next
  case StartSlide
  have "originalsKept created (s\<lparr>app := (app s)\<lparr>currentView := slideshow\<rparr>\<rparr>)"
    using inv by (simp add: originalsKept_def)
  moreover have "render (s\<lparr>app := (app s)\<lparr>currentView := slideshow\<rparr>\<rparr>) = Inr s'"
    using st StartSlide by simp
  ultimately show ?thesis by (rule render_keeps)
next
  case CloseSlide
  have "originalsKept created (s\<lparr>app := (app s)\<lparr>currentView := gallery\<rparr>\<rparr>)"
    using inv by (simp add: originalsKept_def)
  moreover have "render (s\<lparr>app := (app s)\<lparr>currentView := gallery\<rparr>\<rparr>) = Inr s'"
    using st CloseSlide by simp
  ultimately show ?thesis by (rule render_keeps)
next
  case (UpdateFilter key v)
  with st have "editorUpdate (updateFilter key v) s = Inr s'" by simp
  with inv show ?thesis
    by (rule editorUpdate_keeps [OF updateFilter_keeps])
next
  case Rotate
  with st have "editorUpdate handleRotate s = Inr s'" by simp
  with inv show ?thesis
    by (rule editorUpdate_keeps [OF handleRotate_keeps])
next
  case Reset
  with st have "resetEditor s = Inr s'" by simp
  with inv show ?thesis by (rule resetEditor_keeps)
next
  case AutoEnhance
  with st have "editorUpdate handleAutoEnhance s = Inr s'" by simp
  with inv show ?thesis
    by (rule editorUpdate_keeps [OF handleAutoEnhance_keeps])
next
  case (Preset style)
  show ?thesis
  proof (cases "style = ''None''")
    case True
    with st Preset have "resetEditor s = Inr s'" by simp
    with inv show ?thesis by (rule resetEditor_keeps)
  next
    case False
    with st Preset have "editorUpdate (applyPreset style) s = Inr s'" by simp
    with inv show ?thesis
    by (rule editorUpdate_keeps [OF applyPreset_keeps])
  qed
next
  case (NarrationChanged t)
  with st have "editorUpdate (setNarration t) s = Inr s'" by simp
  with inv show ?thesis
    by (rule editorUpdate_keeps [OF setNarration_keeps])
next
  case (NarrationResolved t)
  with st have "editorUpdate (setNarration t) s = Inr s'" by simp
  with inv show ?thesis
    by (rule editorUpdate_keeps [OF setNarration_keeps])
next
  case (SpeechResolved audioUrl)
  with st have "editorUpdate (speechResolved audioUrl) s = Inr s'" by simp
  with inv show ?thesis
    by (rule editorUpdate_keeps [OF speechResolved_keeps])
next
  case (StylizeResolved newImageUrl)
  with st have "editorUpdate (imageResolved newImageUrl) s = Inr s'" by simp
  with inv show ?thesis
    by (rule editorUpdate_keeps [OF imageResolved_keeps])
next
  case (RemoveObjectResolved newImageUrl)
  with st have "editorUpdate (imageResolved newImageUrl) s = Inr s'" by simp
  with inv show ?thesis
    by (rule editorUpdate_keeps [OF imageResolved_keeps])
next
  case (PointRemovalResolved newImageUrl)
  with st have "editorUpdate (imageResolved newImageUrl) s = Inr s'" by simp
  with inv show ?thesis
    by (rule editorUpdate_keeps [OF imageResolved_keeps])
next
  case (TranscribeResolved t)
  with st have "editorUpdate (transcribeResolved t) s = Inr s'" by simp
  with inv show ?thesis
    by (rule editorUpdate_keeps [OF transcribeResolved_keeps])
next
  case (RecordingStopped audioUrl)
  with st have "editorUpdate (recordingStopped audioUrl) s = Inr s'" by simp
  with inv show ?thesis
    by (rule editorUpdate_keeps [OF recordingStopped_keeps])
qed

lemma run_keeps:
  assumes "originalsKept created s"
    and "\<forall>q\<in>set (concat (map addedBy ops)). keepsOriginal created q"
  shows "originalsKept created (fst (run ops s))"
  using assms
proof (induction ops arbitrary: s)
  case Nil
  then show ?case by simp
next
  case (Cons op ops)
  show ?case
  proof (cases "step op s")
    case (Inl f)
    with Cons.prems(1) show ?thesis by simp
  next
    case (Inr s1)
    have "originalsKept created s1"
      using Cons.prems(1) _ Inr by (rule step_keeps) (use Cons.prems(2) in auto)
    moreover have "\<forall>q\<in>set (concat (map addedBy ops)). keepsOriginal created q"
      using Cons.prems(2) by simp
    ultimately have "originalsKept created (fst (run ops s1))"
      by (rule Cons.IH)
    with Inr show ?thesis by simp
  qed
qed

lemma keepsOriginal_unique:
  assumes "keepsOriginal created p" "distinct (map pid created)"
    and "q \<in> set created" "pid q = pid p"
  shows "originalUrl p = originalUrl q"
proof -
  from assms(1) obtain q0 where q0: "q0 \<in> set created" "pid q0 = pid p"
    "originalUrl q0 = originalUrl p"
    by (auto simp: keepsOriginal_iff)
  have "inj_on pid (set created)"
    using assms(2) by (simp add: distinct_map)
  moreover have "pid q = pid q0"
    using q0(2) assms(4) by simp
  ultimately have "q = q0"
    using assms(3) q0(1) by (rule inj_onD)
  with q0(3) show ?thesis by simp
qed

text \<open>
  Two photos created with one identifier: opening the editor on that identifier and
  saving puts the copy of the first photo in the place of both, and the second photo has
  the \<open>originalUrl\<close> of the first from then on.
\<close>

theorem save_overwrites_originalUrl_of_same_id:
  "map originalUrl (photos (app (fst (run
       [AddPhotos [uploadedPhoto ''x'' ''data:1'' ''one.png'',
                   uploadedPhoto ''x'' ''data:2'' ''two.png'']] startSys))))
     = [''data:1'', ''data:2'']
   \<and> run [AddPhotos [uploadedPhoto ''x'' ''data:1'' ''one.png'',
                     uploadedPhoto ''x'' ''data:2'' ''two.png''],
          OnEdit ''x'', OnSave] startSys
     = (startSys\<lparr>app := initialState\<lparr>photos :=
           [uploadedPhoto ''x'' ''data:1'' ''one.png'',
            uploadedPhoto ''x'' ''data:1'' ''one.png'']\<rparr>\<rparr>, None)
   \<and> map originalUrl (photos (app (fst (run
       [AddPhotos [uploadedPhoto ''x'' ''data:1'' ''one.png'',
                   uploadedPhoto ''x'' ''data:2'' ''two.png''],
        OnEdit ''x'', OnSave] startSys))))
     = [''data:1'', ''data:1'']"
  by (simp add: startSys_def initialState_def uploadedPhoto_def render_def
      editorRendered_def photoProp_def saveEditedPhoto_def)

text \<open>
  C9. Let a run start with no editor open, and take any sequence of operations (adding
  and deleting photos, reordering, category changes, opening, saving and cancelling the
  editor, filters, rotation, reset, narration, speech, stylize, object removal,
  transcription), up to its end or to the fault that ends it. In the state it reaches,
  every photo of the store, and the working copy of the editor when it is a whole photo,
  has the \<open>originalUrl\<close> of a photo that was created with its identifier (a photo of the
  starting state or one added during the run); when the created photos have pairwise
  different identifiers, that is the \<open>originalUrl\<close> the photo itself was created with, so
  that no operation changes it. A stylize or object removal that resolves with an image
  changes the \<open>url\<close> of the working copy and nothing else, in the copy or in the store.
\<close>

theorem originalUrl_never_changes:
  assumes "editedPhoto s0 = None"
  shows "(\<forall>p\<in>set (photos (app (fst (run ops s0)))).
            \<exists>q\<in>set (photos (app s0) @ concat (map addedBy ops)).
              pid q = pid p \<and> originalUrl q = originalUrl p)
       \<and> (\<forall>e. editedPhoto (fst (run ops s0)) = Some (Whole e) \<longrightarrow>
            (\<exists>q\<in>set (photos (app s0) @ concat (map addedBy ops)).
               pid q = pid e \<and> originalUrl q = originalUrl e))
       \<and> (distinct (map pid (photos (app s0) @ concat (map addedBy ops))) \<longrightarrow>
            (\<forall>p\<in>set (photos (app (fst (run ops s0)))).
               \<forall>q\<in>set (photos (app s0) @ concat (map addedBy ops)).
                 pid q = pid p \<longrightarrow> originalUrl p = originalUrl q)
          \<and> (\<forall>e. editedPhoto (fst (run ops s0)) = Some (Whole e) \<longrightarrow>
               (\<forall>q\<in>set (photos (app s0) @ concat (map addedBy ops)).
                  pid q = pid e \<longrightarrow> originalUrl e = originalUrl q)))
       \<and> (\<forall>s1 e u. editedPhoto s1 = Some (Whole e) \<and> u \<noteq> [] \<longrightarrow>
            step (StylizeResolved (Some u)) s1
              = Inr (s1\<lparr>editedPhoto := Some (Whole (e\<lparr>url := u\<rparr>))\<rparr>)
          \<and> step (RemoveObjectResolved (Some u)) s1
              = Inr (s1\<lparr>editedPhoto := Some (Whole (e\<lparr>url := u\<rparr>))\<rparr>)
          \<and> step (PointRemovalResolved (Some u)) s1
              = Inr (s1\<lparr>editedPhoto := Some (Whole (e\<lparr>url := u\<rparr>))\<rparr>))
       \<and> (\<forall>s1 e u. editedPhoto s1 = Some (Partial e) \<and> u \<noteq> [] \<longrightarrow>
            step (StylizeResolved (Some u)) s1
              = Inr (s1\<lparr>editedPhoto := Some (Partial (e\<lparr>partial_url := Some u\<rparr>))\<rparr>)
          \<and> step (RemoveObjectResolved (Some u)) s1
              = Inr (s1\<lparr>editedPhoto := Some (Partial (e\<lparr>partial_url := Some u\<rparr>))\<rparr>)
          \<and> step (PointRemovalResolved (Some u)) s1
              = Inr (s1\<lparr>editedPhoto := Some (Partial (e\<lparr>partial_url := Some u\<rparr>))\<rparr>))"
proof -
  let ?created = "photos (app s0) @ concat (map addedBy ops)"
  let ?s = "fst (run ops s0)"
  have self: "keepsOriginal ?created q" if "q \<in> set ?created" for q
    using that unfolding keepsOriginal_iff by blast
  have "originalsKept ?created s0"
    using assms self by (simp add: originalsKept_def)
  moreover have "\<forall>q\<in>set (concat (map addedBy ops)). keepsOriginal ?created q"
    using self by simp
  ultimately have kept: "originalsKept ?created ?s"
    by (rule run_keeps)
  have some: "\<forall>p\<in>set (photos (app ?s)). \<exists>q\<in>set ?created.
            pid q = pid p \<and> originalUrl q = originalUrl p"
    using kept by (simp add: originalsKept_def keepsOriginal_iff)
  have some_copy: "\<forall>e. editedPhoto ?s = Some (Whole e) \<longrightarrow>
            (\<exists>q\<in>set ?created. pid q = pid e \<and> originalUrl q = originalUrl e)"
    using kept by (simp add: originalsKept_def keepsOriginal_iff)
  have store: "\<forall>p\<in>set (photos (app ?s)). \<forall>q\<in>set ?created.
            pid q = pid p \<longrightarrow> originalUrl p = originalUrl q"
    if d: "distinct (map pid ?created)"
  proof (intro ballI impI)
    fix p q
    assume p: "p \<in> set (photos (app ?s))" and q: "q \<in> set ?created" "pid q = pid p"
    from kept p have "keepsOriginal ?created p"
      by (simp add: originalsKept_def)
    then show "originalUrl p = originalUrl q"
      using d q by (rule keepsOriginal_unique)
  qed
  have copy: "\<forall>e. editedPhoto ?s = Some (Whole e) \<longrightarrow>
            (\<forall>q\<in>set ?created. pid q = pid e \<longrightarrow> originalUrl e = originalUrl q)"
    if d: "distinct (map pid ?created)"
  proof (intro allI ballI impI)
    fix e q
    assume e: "editedPhoto ?s = Some (Whole e)" and q: "q \<in> set ?created" "pid q = pid e"
    from kept e have "keepsOriginal ?created e"
      by (simp add: originalsKept_def)
    then show "originalUrl e = originalUrl q"
      using d q by (rule keepsOriginal_unique)
  qed
  have img: "\<forall>s1 e u. editedPhoto s1 = Some (Whole e) \<and> u \<noteq> [] \<longrightarrow>
            step (StylizeResolved (Some u)) s1
              = Inr (s1\<lparr>editedPhoto := Some (Whole (e\<lparr>url := u\<rparr>))\<rparr>)
          \<and> step (RemoveObjectResolved (Some u)) s1
              = Inr (s1\<lparr>editedPhoto := Some (Whole (e\<lparr>url := u\<rparr>))\<rparr>)
          \<and> step (PointRemovalResolved (Some u)) s1
              = Inr (s1\<lparr>editedPhoto := Some (Whole (e\<lparr>url := u\<rparr>))\<rparr>)"
    by (simp add: editorUpdate_def imageResolved_def)
  have img_partial: "\<forall>s1 e u. editedPhoto s1 = Some (Partial e) \<and> u \<noteq> [] \<longrightarrow>
            step (StylizeResolved (Some u)) s1
              = Inr (s1\<lparr>editedPhoto := Some (Partial (e\<lparr>partial_url := Some u\<rparr>))\<rparr>)
          \<and> step (RemoveObjectResolved (Some u)) s1
              = Inr (s1\<lparr>editedPhoto := Some (Partial (e\<lparr>partial_url := Some u\<rparr>))\<rparr>)
          \<and> step (PointRemovalResolved (Some u)) s1
              = Inr (s1\<lparr>editedPhoto := Some (Partial (e\<lparr>partial_url := Some u\<rparr>))\<rparr>)"
    by (simp add: editorUpdate_def imageResolved_def)
  from some some_copy store copy img img_partial show ?thesis by blast
qed

theorem originalUrl_never_changes_witness:
  "editedPhoto startSys = None
   \<and> run [AddPhotos [uploadedPhoto ''a'' ''data:1'' ''one.png''], OnEdit ''a'',
          StylizeResolved (Some ''data:2''), Rotate, OnSave] startSys
     = (startSys\<lparr>app := initialState\<lparr>photos :=
             [(uploadedPhoto ''a'' ''data:1'' ''one.png'')\<lparr>url := ''data:2'', rotation := 90\<rparr>]\<rparr>\<rparr>,
        None)
   \<and> distinct (map pid (photos (app startSys)
        @ concat (map addedBy [AddPhotos [uploadedPhoto ''a'' ''data:1'' ''one.png''], OnEdit ''a'',
                               StylizeResolved (Some ''data:2''), Rotate, OnSave])))
   \<and> originalUrl ((uploadedPhoto ''a'' ''data:1'' ''one.png'')\<lparr>url := ''data:2'', rotation := 90\<rparr>)
       = originalUrl (uploadedPhoto ''a'' ''data:1'' ''one.png'')"
proof -
  let ?ops = "[AddPhotos [uploadedPhoto ''a'' ''data:1'' ''one.png''], OnEdit ''a'',
               StylizeResolved (Some ''data:2''), Rotate, OnSave]"
  let ?s = "startSys\<lparr>app := initialState\<lparr>photos :=
             [(uploadedPhoto ''a'' ''data:1'' ''one.png'')\<lparr>url := ''data:2'', rotation := 90\<rparr>]\<rparr>\<rparr>"
  have r: "run ?ops startSys = (?s, None)"
    by (simp add: startSys_def initialState_def uploadedPhoto_def render_def
        editorRendered_def photoProp_def editorUpdate_def imageResolved_def handleRotate_def
        js_rem_def saveEditedPhoto_def)
  have e: "editedPhoto startSys = None"
    by (simp add: startSys_def)
  have d: "distinct (map pid (photos (app startSys) @ concat (map addedBy ?ops)))"
    by (simp add: startSys_def initialState_def)
  have m: "(uploadedPhoto ''a'' ''data:1'' ''one.png'')\<lparr>url := ''data:2'', rotation := 90\<rparr>
             \<in> set (photos (app (fst (run ?ops startSys))))"
    unfolding r by simp
  have c: "uploadedPhoto ''a'' ''data:1'' ''one.png''
             \<in> set (photos (app startSys) @ concat (map addedBy ?ops))"
    by simp
  have i: "pid (uploadedPhoto ''a'' ''data:1'' ''one.png'')
             = pid ((uploadedPhoto ''a'' ''data:1'' ''one.png'')\<lparr>url := ''data:2'', rotation := 90\<rparr>)"
    by simp
  from originalUrl_never_changes [OF e, of ?ops] d m c i
  have "originalUrl ((uploadedPhoto ''a'' ''data:1'' ''one.png'')\<lparr>url := ''data:2'', rotation := 90\<rparr>)
         = originalUrl (uploadedPhoto ''a'' ''data:1'' ''one.png'')"
    by blast
  with r e d show ?thesis by blast
qed

text \<open>
  A reset after the photo under edit was deleted leaves a partial copy, the editor goes
  on, and saving that copy changes no photo.
\<close>

lemma reset_after_delete_example:
  "run [AddPhotos [uploadedPhoto ''a'' ''data:1'' ''one.png'',
                   uploadedPhoto ''b'' ''data:2'' ''two.png''],
        OnEdit ''a'', DeletePhoto ''a'', Reset, StylizeResolved (Some ''data:3''), OnSave] startSys
     = (startSys\<lparr>app := initialState\<lparr>photos := [uploadedPhoto ''b'' ''data:2'' ''two.png'']\<rparr>\<rparr>,
        None)"
  by (simp add: startSys_def initialState_def uploadedPhoto_def render_def
      editorRendered_def photoProp_def editorUpdate_def imageResolved_def resetEditor_def
      deletePhoto_def)

end
